theory Spec2Isabelle
  imports Main "HOL-Library.Sublist"
begin

section \<open>Notebook synchronization engine (storageService.ts)\<close>

text \<open>
  A shallow embedding of the notebook persistence layer: the snapshot data model,
  \<open>InMemoryFirestoreClient\<close>, \<open>InMemoryNotebookCache\<close> and the per-document
  \<open>NotebookBinding\<close> (capture, save protocol, conflict merge, restore).

  Conventions.
  \<^item> JavaScript numbers that hold versions, handles and millisecond timestamps are the
    integers among the doubles, as \<open>int\<close>. Arithmetic on a version (\<open>js_add\<close>, \<open>js_sub\<close>) rounds
    as a double does; \<open>Infinity\<close> and \<open>NaN\<close> are outside the model.
  \<^item> Loosely typed payloads (document metadata, transient options, output metadata) are
    opaque JSON text, \<open>json\<close>.
  \<^item> An optional field (\<open>f?: T\<close>, or a value that may be \<open>undefined\<close>) is \<open>T option\<close>.
  \<^item> A thrown error is the \<open>Inl\<close> of a sum; every function that can throw returns the
    state it reached together with its outcome, since effects made before a throw stay.
\<close>

subsection \<open>JavaScript numbers\<close>

text \<open>
  A JavaScript number is an IEEE 754 double: 53 significant bits, results rounded to the
  nearest double, a tie to the one whose last significant bit is 0. On integers:
  \<open>quantum n\<close> is the distance between neighbouring doubles at magnitude \<open>n\<close> (1 below \<open>2^53\<close>,
  doubling with each further bit), and \<open>toDouble x\<close> is the double nearest to the integer \<open>x\<close>.
  The sum and the difference of two integer-valued doubles are the exact result rounded
  once. \<open>9007199254740992\<close> is \<open>2^53\<close>.
\<close>

function quantum :: "nat \<Rightarrow> nat" where
  "quantum n = (if n < 9007199254740992 then 1 else 2 * quantum (n div 2))"
  by pat_completeness auto

termination quantum
  by (relation "measure (\<lambda>n. n)") auto

declare quantum.simps [simp del]

definition toDouble :: "int \<Rightarrow> int" where
  "toDouble x =
     (let a = \<bar>x\<bar>;
          q = int (quantum (nat a));
          d = a div q;
          r = a mod q;
          m = (if 2 * r < q then d
               else if q < 2 * r then d + 1
               else if even d then d else d + 1)
      in sgn x * (m * q))"

definition js_add :: "int \<Rightarrow> int \<Rightarrow> int" where
  "js_add a b = toDouble (a + b)"

definition js_sub :: "int \<Rightarrow> int \<Rightarrow> int" where
  "js_sub a b = toDouble (a - b)"

subsection \<open>Snapshot model\<close>

type_synonym json = string

datatype CellKind = Markup | Code

datatype Role = User | Assistant | System

text \<open>\<open>VSBuffer\<close> and its base64 text. \<open>encodeBase64\<close> and \<open>decodeBase64\<close> live in the editor's
  base library; the text is kept abstract as the buffer it encodes.\<close>

datatype VSBuffer = VSBuffer "nat list"

datatype base64 = Base64 VSBuffer

fun encodeBuffer :: "VSBuffer \<Rightarrow> base64" where
  "encodeBuffer b = Base64 b"

fun decodeBuffer :: "base64 \<Rightarrow> VSBuffer" where
  "decodeBuffer (Base64 b) = b"

record TranscriptMessage =
  msg_id :: string
  msg_role :: Role
  msg_text :: string
  msg_timestamp :: int

record MCQAnswerSnapshot =
  questionId :: string
  selectedOptionIds :: "string list"
  correctOptionIds :: "string list option"
  confidence :: "json option"
  ans_updatedAt :: int

record LessonProgressRecord =
  lp_userId :: string
  lessonId :: string
  completedCellIds :: "string list"
  masteredConceptIds :: "string list"
  mcqScores :: json
  lp_updatedAt :: int

record SerializedOutputItem =
  si_mime :: string
  si_data :: base64
  si_metadata :: "json option"

record SerializedCellOutput =
  so_outputId :: "string option"
  so_metadata :: "json option"
  so_items :: "SerializedOutputItem list"

text \<open>Cell metadata is an open map; the only keys the engine reads are the three under
  \<open>custom\<close> that \<open>resolveCellId\<close> consults. Everything else stays opaque.\<close>

record NotebookCellMetadata =
  custom_eduCellId :: "string option"
  custom_edu_id :: "string option"
  custom_id :: "string option"
  md_rest :: json

record EduNotebookCellSnapshot =
  cell_id :: string
  cell_handle :: int
  cell_uri :: string
  cell_kind :: CellKind
  cell_language :: string
  cell_mime :: "string option"
  cell_content :: string
  cell_metadata :: "NotebookCellMetadata option"
  cell_internalMetadata :: "json option"
  cell_outputs :: "SerializedCellOutput list"
  lastModified :: int

record EduNotebookSnapshot =
  userId :: string
  notebookId :: string
  notebookUri :: string
  viewType :: string
  metadata :: json
  transientOptions :: json
  cells :: "EduNotebookCellSnapshot list"
  transcripts :: "TranscriptMessage list"
  mcqAnswers :: "string \<rightharpoonup> MCQAnswerSnapshot"
  lessonProgress :: "LessonProgressRecord option"
  version :: int
  updatedAt :: int
  pending :: "bool option"

record NotebookSessionState =
  ss_userId :: string
  ss_notebookId :: string
  ss_notebookUri :: string
  ss_viewType :: string
  ss_sessionId :: string
  lastOpened :: int

datatype error = ConflictError | OfflineError | OtherError

text \<open>\<open>deepClone\<close> is a JSON round trip. On the JSON-representable values of this model it
  returns a structurally equal copy; a field set to \<open>undefined\<close> is dropped, which is \<open>None\<close>
  here either way.\<close>

definition deepClone :: "'a \<Rightarrow> 'a" where
  "deepClone value = value"

subsection \<open>InMemoryFirestoreClient\<close>

text \<open>Both in-memory stores build their keys as \<open>`${userId}::${notebookId}`\<close>.\<close>

definition key :: "string \<Rightarrow> string \<Rightarrow> string" where
  "key uid nid = uid @ ''::'' @ nid"

definition mem_getNotebook ::
  "string \<Rightarrow> string \<Rightarrow> (string \<rightharpoonup> EduNotebookSnapshot) \<Rightarrow> EduNotebookSnapshot option" where
  "mem_getNotebook uid nid notebooks =
     (case notebooks (key uid nid) of
        Some snapshot \<Rightarrow> Some (deepClone snapshot)
      | None \<Rightarrow> None)"

text \<open>\<open>saveNotebook(snapshot, options?)\<close>: the second argument is \<open>options?.expectedVersion\<close>.
  The result is the returned copy together with the updated \<open>notebooks\<close> map.\<close>

definition mem_saveNotebook ::
  "EduNotebookSnapshot \<Rightarrow> int option \<Rightarrow> (string \<rightharpoonup> EduNotebookSnapshot)
     \<Rightarrow> error + (EduNotebookSnapshot \<times> (string \<rightharpoonup> EduNotebookSnapshot))" where
  "mem_saveNotebook snapshot expectedVersion notebooks =
     (let k = key (userId snapshot) (notebookId snapshot);
          current = notebooks k
      in if (case current of
               None \<Rightarrow> False
             | Some cur \<Rightarrow>
                 (case expectedVersion of
                    None \<Rightarrow> False
                  | Some ev \<Rightarrow> version cur \<noteq> ev))
         then Inl ConflictError
         else (let stored = deepClone snapshot
               in Inr (deepClone stored, notebooks(k \<mapsto> stored))))"

subsection \<open>The remote store as the binding reaches it (IFirestoreClient)\<close>

text \<open>
  The binding talks to the remote store through \<open>IFirestoreClient\<close>, whose calls are
  asynchronous: a call may find the store unreachable (\<open>OfflineError\<close>), may fail in some
  other way (a plain \<open>Error\<close>, as \<open>FirebaseFirestoreClient.translateError\<close> produces), and
  other clients may have written to the store since the binding's previous call. The
  environment is a schedule with one event per call the binding makes; when the schedule is
  used up every call is served, which is \<open>InMemoryFirestoreClient\<close> alone.

  \<open>ExternalWrite s\<close> is another client storing \<open>s\<close> unconditionally before the call is
  served, as the conflict test does with \<open>firestore.saveNotebook({...})\<close>.
  \<open>ExternalRemove uid nid\<close> is the notebook document of that user being removed from the
  store before the call is served, the case \<open>handleConflict\<close> provides for
  (\<open>// If remote vanished, retry with local state\<close>).
\<close>

datatype net_event =
    Reachable
  | Unreachable
  | Failing
  | ExternalWrite EduNotebookSnapshot
  | ExternalRemove string string

text \<open>\<open>saveLog\<close> is a history variable: one entry per \<open>saveNotebook\<close> call the binding
  issues, in order. The program never reads it; claims about which saves were issued are
  stated on it. An entry holds the arguments of the call, the version the store held under
  the snapshot's key when the call was served (\<open>sc_prior\<close>), the version it holds there when
  the call has returned (\<open>sc_stored\<close>), and the error thrown, if any.\<close>

record save_call =
  sc_snapshot :: EduNotebookSnapshot
  sc_expected :: "int option"
  sc_prior :: "int option"
  sc_stored :: "int option"
  sc_outcome :: "error option"

record firestore =
  notebooks :: "string \<rightharpoonup> EduNotebookSnapshot"
  sessions :: "string \<rightharpoonup> NotebookSessionState"
  incoming :: "net_event list"
  saveLog :: "save_call list"

definition arrive :: "firestore \<Rightarrow> error option \<times> firestore" where
  "arrive fs =
     (case incoming fs of
        [] \<Rightarrow> (None, fs)
      | ev # evs \<Rightarrow>
          (case ev of
             Reachable \<Rightarrow> (None, fs\<lparr>incoming := evs\<rparr>)
           | Unreachable \<Rightarrow> (Some OfflineError, fs\<lparr>incoming := evs\<rparr>)
           | Failing \<Rightarrow> (Some OtherError, fs\<lparr>incoming := evs\<rparr>)
           | ExternalWrite s \<Rightarrow>
               (None, fs\<lparr>incoming := evs,
                         notebooks := (notebooks fs)(key (userId s) (notebookId s) \<mapsto> s)\<rparr>)
           | ExternalRemove uid nid \<Rightarrow>
               (None, fs\<lparr>incoming := evs,
                         notebooks := (notebooks fs)(key uid nid := None)\<rparr>)))"

definition getNotebook ::
  "string \<Rightarrow> string \<Rightarrow> firestore \<Rightarrow> (error + EduNotebookSnapshot option) \<times> firestore" where
  "getNotebook uid nid fs =
     (case arrive fs of
        (Some err, fs1) \<Rightarrow> (Inl err, fs1)
      | (None, fs1) \<Rightarrow> (Inr (mem_getNotebook uid nid (notebooks fs1)), fs1))"

text \<open>\<open>logged snapshot expectedVersion outcome before after\<close>: the entry of a call served on
  the store \<open>before\<close> that left the notebooks \<open>after\<close>.\<close>

definition logged ::
  "EduNotebookSnapshot \<Rightarrow> int option \<Rightarrow> error option \<Rightarrow> firestore
     \<Rightarrow> (string \<rightharpoonup> EduNotebookSnapshot) \<Rightarrow> save_call" where
  "logged snapshot expectedVersion outcome before after =
     \<lparr>sc_snapshot = snapshot, sc_expected = expectedVersion,
      sc_prior =
        map_option version (notebooks before (key (userId snapshot) (notebookId snapshot))),
      sc_stored = map_option version (after (key (userId snapshot) (notebookId snapshot))),
      sc_outcome = outcome\<rparr>"

definition saveNotebook ::
  "EduNotebookSnapshot \<Rightarrow> int option \<Rightarrow> firestore \<Rightarrow> (error + EduNotebookSnapshot) \<times> firestore" where
  "saveNotebook snapshot expectedVersion fs =
     (case arrive fs of
        (Some err, fs1) \<Rightarrow>
          (Inl err,
           fs1\<lparr>saveLog :=
                 saveLog fs1 @ [logged snapshot expectedVersion (Some err) fs1 (notebooks fs1)]\<rparr>)
      | (None, fs1) \<Rightarrow>
          (case mem_saveNotebook snapshot expectedVersion (notebooks fs1) of
             Inl err \<Rightarrow>
               (Inl err,
                fs1\<lparr>saveLog :=
                      saveLog fs1 @ [logged snapshot expectedVersion (Some err) fs1 (notebooks fs1)]\<rparr>)
           | Inr (persisted, nb) \<Rightarrow>
               (Inr persisted,
                fs1\<lparr>notebooks := nb,
                    saveLog := saveLog fs1 @ [logged snapshot expectedVersion None fs1 nb]\<rparr>)))"

definition saveSession :: "NotebookSessionState \<Rightarrow> firestore \<Rightarrow> (error + unit) \<times> firestore" where
  "saveSession session fs =
     (case arrive fs of
        (Some err, fs1) \<Rightarrow> (Inl err, fs1)
      | (None, fs1) \<Rightarrow>
          (Inr (), fs1\<lparr>sessions := (sessions fs1)(ss_userId session \<mapsto> deepClone session)\<rparr>))"

text \<open>\<open>deletePendingSnapshot\<close> is optional in the interface and does nothing in both
  implementations of the repository (\<open>InMemoryFirestoreClient\<close>, \<open>FirebaseFirestoreClient\<close>);
  it makes no request.\<close>

definition deletePendingSnapshot :: "string \<Rightarrow> string \<Rightarrow> firestore \<Rightarrow> firestore" where
  "deletePendingSnapshot uid nid fs = fs"

subsection \<open>InMemoryNotebookCache\<close>

text \<open>\<open>pending\<close> is a JavaScript \<open>Map\<close> that \<open>consumePendingSnapshots\<close> iterates, so its
  insertion order is kept: an association list with at most one entry per key.\<close>

record InMemoryNotebookCache =
  cache_notebooks :: "string \<rightharpoonup> EduNotebookSnapshot"
  cache_sessions :: "string \<rightharpoonup> NotebookSessionState"
  cache_pending :: "(string \<times> EduNotebookSnapshot list) list"

text \<open>\<open>Map.prototype.set\<close>: an existing key keeps its position, a new key goes last.\<close>

fun map_set :: "'k \<Rightarrow> 'v \<Rightarrow> ('k \<times> 'v) list \<Rightarrow> ('k \<times> 'v) list" where
  "map_set k v [] = [(k, v)]"
| "map_set k v ((k', v') # rest) =
     (if k' = k then (k, v) # rest else (k', v') # map_set k v rest)"

definition readNotebook ::
  "string \<Rightarrow> string \<Rightarrow> InMemoryNotebookCache \<Rightarrow> EduNotebookSnapshot option" where
  "readNotebook uid nid c = deepClone (cache_notebooks c (key uid nid))"

definition writeNotebook :: "EduNotebookSnapshot \<Rightarrow> InMemoryNotebookCache \<Rightarrow> InMemoryNotebookCache" where
  "writeNotebook snapshot c =
     c\<lparr>cache_notebooks :=
         (cache_notebooks c)(key (userId snapshot) (notebookId snapshot) \<mapsto> deepClone snapshot)\<rparr>"

definition writeSession :: "NotebookSessionState \<Rightarrow> InMemoryNotebookCache \<Rightarrow> InMemoryNotebookCache" where
  "writeSession session c =
     c\<lparr>cache_sessions := (cache_sessions c)(ss_userId session \<mapsto> deepClone session)\<rparr>"

definition pendingFor :: "string \<Rightarrow> string \<Rightarrow> InMemoryNotebookCache \<Rightarrow> EduNotebookSnapshot list" where
  "pendingFor uid nid c =
     (case map_of (cache_pending c) (key uid nid) of None \<Rightarrow> [] | Some list \<Rightarrow> list)"

definition storePendingSnapshot ::
  "string \<Rightarrow> string \<Rightarrow> EduNotebookSnapshot \<Rightarrow> InMemoryNotebookCache \<Rightarrow> InMemoryNotebookCache" where
  "storePendingSnapshot uid nid snapshot c =
     (let k = key uid nid;
          list = pendingFor uid nid c
      in c\<lparr>cache_pending := map_set k (list @ [deepClone snapshot]) (cache_pending c)\<rparr>)"

definition consumePendingSnapshots ::
  "string \<Rightarrow> InMemoryNotebookCache \<Rightarrow> EduNotebookSnapshot list \<times> InMemoryNotebookCache" where
  "consumePendingSnapshots uid c =
     (let pfx = uid @ ''::''
      in (concat (map (\<lambda>(k, v). map deepClone v)
                    (filter (\<lambda>(k, v). prefix pfx k) (cache_pending c))),
          c\<lparr>cache_pending := filter (\<lambda>(k, v). \<not> prefix pfx k) (cache_pending c)\<rparr>))"

subsection \<open>The document model (PersistableNotebookModel)\<close>

text \<open>The live document is external to the engine. Its shape follows the interfaces of
  storageService.ts, and \<open>reset\<close> follows \<open>TestNotebookModel\<close>, the implementation the
  repository's tests bind to.\<close>

record IOutputItemDto =
  dto_mime :: string
  dto_data :: VSBuffer
  dto_metadata :: "json option"

record IOutputDto =
  od_outputId :: string
  od_metadata :: "json option"
  od_outputs :: "IOutputItemDto list"

record INotebookCellOutputLike =
  out_outputId :: "string option"
  out_metadata :: "json option"
  out_outputs :: "IOutputItemDto list option"

record PersistableNotebookCell =
  pc_handle :: int
  pc_uri :: string
  pc_cellKind :: CellKind
  pc_language :: string
  pc_mime :: "string option"
  pc_metadata :: NotebookCellMetadata
  pc_internalMetadata :: json
  pc_outputs :: "INotebookCellOutputLike list"
  pc_value :: string

record ICellDto2 =
  d_cellKind :: CellKind
  d_language :: string
  d_mime :: "string option"
  d_source :: string
  d_metadata :: "NotebookCellMetadata option"
  d_internalMetadata :: "json option"
  d_outputs :: "IOutputDto list"

record PersistableNotebookModel =
  model_cells :: "PersistableNotebookCell list"
  model_metadata :: json
  model_transientOptions :: json

text \<open>The text of a handle in \<open>`test://cell/${handle}`\<close>: \<open>Number::toString\<close> of an integer, a
  minus sign for a negative one and the decimal digits. (From \<open>10^21\<close> on JavaScript prints
  an exponent instead; handles are positions in the cell array plus one.)\<close>

fun decimal :: "nat \<Rightarrow> string" where
  "decimal n =
     (if n < 10 then [''0123456789'' ! n]
      else decimal (n div 10) @ [''0123456789'' ! (n mod 10)])"

declare decimal.simps [simp del]

definition numberToString :: "int \<Rightarrow> string" where
  "numberToString h = (if h < 0 then ''-'' @ decimal (nat (- h)) else decimal (nat h))"

definition emptyObject :: json where
  "emptyObject = ''{}''"

definition emptyCellMetadata :: NotebookCellMetadata where
  "emptyCellMetadata =
     \<lparr>custom_eduCellId = None, custom_edu_id = None, custom_id = None, md_rest = emptyObject\<rparr>"

text \<open>\<open>new TestNotebookCell(handle, value, kind, language, metadata, internalMetadata, outputs)\<close>;
  its \<open>mime\<close> getter returns \<open>undefined\<close>.\<close>

definition TestNotebookCell ::
  "int \<Rightarrow> string \<Rightarrow> CellKind \<Rightarrow> string \<Rightarrow> NotebookCellMetadata \<Rightarrow> json
     \<Rightarrow> INotebookCellOutputLike list \<Rightarrow> PersistableNotebookCell" where
  "TestNotebookCell h v k lang md imd outs =
     \<lparr>pc_handle = h, pc_uri = ''test://cell/'' @ numberToString h, pc_cellKind = k,
      pc_language = lang, pc_mime = None, pc_metadata = md, pc_internalMetadata = imd,
      pc_outputs = outs, pc_value = v\<rparr>"

text \<open>\<open>new TestNotebookCellOutput(outputId, items)\<close>: no metadata.\<close>

definition TestNotebookCellOutput :: "string \<Rightarrow> IOutputItemDto list \<Rightarrow> INotebookCellOutputLike" where
  "TestNotebookCellOutput oid items =
     \<lparr>out_outputId = Some oid, out_metadata = None, out_outputs = Some items\<rparr>"

definition reset ::
  "ICellDto2 list \<Rightarrow> json \<Rightarrow> json \<Rightarrow> PersistableNotebookModel \<Rightarrow> PersistableNotebookModel" where
  "reset cs md topts m =
     m\<lparr>model_cells :=
         map (\<lambda>(index, cell).
                TestNotebookCell (js_add (int index) 1) (d_source cell) (d_cellKind cell) (d_language cell)
                  (case d_metadata cell of None \<Rightarrow> emptyCellMetadata | Some x \<Rightarrow> x)
                  (case d_internalMetadata cell of None \<Rightarrow> emptyObject | Some x \<Rightarrow> x)
                  (map (\<lambda>output. TestNotebookCellOutput (od_outputId output) (od_outputs output))
                     (d_outputs cell)))
             (enumerate 0 cs),
       model_metadata := md,
       model_transientOptions := topts\<rparr>"

subsection \<open>NotebookBinding: state\<close>

record NotebookPersistenceContext =
  ctx_userId :: string
  ctx_notebookId :: string
  ctx_sessionId :: string
  ctx_notebookUri :: string
  ctx_viewType :: string

datatype RestoreSource = Remote | LocalCache | Empty

record NotebookRestorationResult =
  appliedRemote :: bool
  source :: RestoreSource

text \<open>
  The fields of the class, with the collaborators it holds handles to (\<open>model\<close>,
  \<open>firestore\<close>, \<open>cache\<close>) carried as their states. \<open>clock\<close> is an arbitrary function of the
  number of readings taken so far. \<open>didPersist\<close> counts how often \<open>_onDidPersist\<close> fired.
\<close>

record NotebookBinding =
  b_context :: NotebookPersistenceContext
  b_model :: PersistableNotebookModel
  b_firestore :: firestore
  b_cache :: InMemoryNotebookCache
  b_clock :: "nat \<Rightarrow> int"
  b_clockReads :: nat
  b_transcripts :: "TranscriptMessage list"
  b_mcqAnswers :: "string \<rightharpoonup> MCQAnswerSnapshot"
  b_version :: int
  b_lastSnapshot :: "EduNotebookSnapshot option"
  b_didPersist :: nat

definition clock :: "NotebookBinding \<Rightarrow> int \<times> NotebookBinding" where
  "clock b = (b_clock b (b_clockReads b), b\<lparr>b_clockReads := Suc (b_clockReads b)\<rparr>)"

subsection \<open>NotebookBinding: capturing and applying snapshots\<close>

text \<open>\<open>custom?.eduCellId ?? custom?.edu?.id ?? custom?.id\<close>, then \<open>eduId ? String(eduId) : uri\<close>:
  the empty string is falsy.\<close>

definition resolveCellId :: "PersistableNotebookCell \<Rightarrow> string" where
  "resolveCellId cell =
     (let custom = pc_metadata cell;
          eduId = (case custom_eduCellId custom of
                     Some x \<Rightarrow> Some x
                   | None \<Rightarrow>
                       (case custom_edu_id custom of
                          Some x \<Rightarrow> Some x
                        | None \<Rightarrow> custom_id custom))
      in case eduId of
           None \<Rightarrow> pc_uri cell
         | Some x \<Rightarrow> if x = [] then pc_uri cell else x)"

definition serializeOutputItem :: "IOutputItemDto \<Rightarrow> SerializedOutputItem" where
  "serializeOutputItem item =
     \<lparr>si_mime = dto_mime item, si_data = encodeBuffer (dto_data item),
      si_metadata = deepClone (dto_metadata item)\<rparr>"

text \<open>An output with \<open>asDto\<close> (\<open>TestNotebookCellOutput\<close>) yields its own id, items and
  metadata; one without yields the same with \<open>?? ''\<close> and \<open>?? []\<close> defaults.\<close>

definition serializeOutput :: "INotebookCellOutputLike \<Rightarrow> SerializedCellOutput" where
  "serializeOutput output =
     (let dto = \<lparr>od_outputId = (case out_outputId output of None \<Rightarrow> [] | Some x \<Rightarrow> x),
                 od_metadata = out_metadata output,
                 od_outputs = (case out_outputs output of None \<Rightarrow> [] | Some xs \<Rightarrow> xs)\<rparr>
      in \<lparr>so_outputId = Some (od_outputId dto),
          so_metadata = deepClone (od_metadata dto),
          so_items = map serializeOutputItem (od_outputs dto)\<rparr>)"

definition serializeCell :: "PersistableNotebookCell \<Rightarrow> int \<Rightarrow> EduNotebookCellSnapshot" where
  "serializeCell cell timestamp =
     (let outputs = map serializeOutput (pc_outputs cell)
      in \<lparr>cell_id = resolveCellId cell,
          cell_handle = pc_handle cell,
          cell_uri = pc_uri cell,
          cell_kind = pc_cellKind cell,
          cell_language = pc_language cell,
          cell_mime = pc_mime cell,
          cell_content = pc_value cell,
          cell_metadata = Some (deepClone (pc_metadata cell)),
          cell_internalMetadata = Some (deepClone (pc_internalMetadata cell)),
          cell_outputs = outputs,
          lastModified = timestamp\<rparr>)"

definition captureSnapshot :: "NotebookBinding \<Rightarrow> EduNotebookSnapshot \<times> NotebookBinding" where
  "captureSnapshot b0 =
     (let (now, b) = clock b0;
          cs = map (\<lambda>cell. serializeCell cell now) (model_cells (b_model b))
      in (\<lparr>userId = ctx_userId (b_context b),
           notebookId = ctx_notebookId (b_context b),
           notebookUri = ctx_notebookUri (b_context b),
           viewType = ctx_viewType (b_context b),
           metadata = deepClone (model_metadata (b_model b)),
           transientOptions = deepClone (model_transientOptions (b_model b)),
           cells = cs,
           transcripts = b_transcripts b,
           mcqAnswers = b_mcqAnswers b,
           lessonProgress = (case b_lastSnapshot b of None \<Rightarrow> None | Some l \<Rightarrow> lessonProgress l),
           version = js_add (b_version b) 1,
           updatedAt = now,
           pending = None\<rparr>, b))"

definition toCellDto :: "EduNotebookCellSnapshot \<Rightarrow> ICellDto2" where
  "toCellDto cell =
     \<lparr>d_cellKind = cell_kind cell,
      d_language = cell_language cell,
      d_mime = cell_mime cell,
      d_source = cell_content cell,
      d_metadata = deepClone (cell_metadata cell),
      d_internalMetadata = deepClone (cell_internalMetadata cell),
      d_outputs =
        map (\<lambda>output.
               \<lparr>od_outputId = (case so_outputId output of None \<Rightarrow> [] | Some x \<Rightarrow> x),
                od_metadata = deepClone (so_metadata output),
                od_outputs =
                  map (\<lambda>item. \<lparr>dto_mime = si_mime item, dto_data = decodeBuffer (si_data item),
                               dto_metadata = deepClone (si_metadata item)\<rparr>)
                    (so_items output)\<rparr>)
          (cell_outputs cell)\<rparr>"

definition applySnapshot :: "EduNotebookSnapshot \<Rightarrow> NotebookBinding \<Rightarrow> NotebookBinding" where
  "applySnapshot snapshot b =
     b\<lparr>b_version := version snapshot,
       b_transcripts := transcripts snapshot,
       b_mcqAnswers := mcqAnswers snapshot,
       b_lastSnapshot := Some snapshot,
       b_model := reset (map toCellDto (cells snapshot)) (deepClone (metadata snapshot))
                    (deepClone (transientOptions snapshot)) (b_model b)\<rparr>"

definition chooseSnapshot ::
  "EduNotebookSnapshot option \<Rightarrow> EduNotebookSnapshot option \<Rightarrow> EduNotebookSnapshot option" where
  "chooseSnapshot remote cached =
     (case (remote, cached) of
        (Some r, Some c) \<Rightarrow> if updatedAt r \<ge> updatedAt c then Some r else Some c
      | (Some r, None) \<Rightarrow> Some r
      | (None, c) \<Rightarrow> c)"

subsection \<open>NotebookBinding: the merge algorithm\<close>

text \<open>\<open>new Map(entries)\<close>: entries are set in order, a repeated key keeps its first position
  and takes the last value.\<close>

definition newMap :: "('k \<times> 'v) list \<Rightarrow> ('k \<times> 'v) list" where
  "newMap entries = foldl (\<lambda>m (k, v). map_set k v m) [] entries"

text \<open>The two loops of \<open>mergeSnapshots\<close> over cells. \<open>seen\<close> collects the ids pushed by the
  first loop; the second loop appends the remote cells whose id is not among them.\<close>

definition mergeCells ::
  "EduNotebookCellSnapshot list \<Rightarrow> EduNotebookCellSnapshot list \<Rightarrow> EduNotebookCellSnapshot list" where
  "mergeCells localCells remoteCells =
     (let remoteMap = newMap (map (\<lambda>cell. (cell_id cell, cell)) remoteCells);
          chosen = map (\<lambda>cell.
                          case map_of remoteMap (cell_id cell) of
                            None \<Rightarrow> cell
                          | Some remoteCell \<Rightarrow>
                              if lastModified cell \<ge> lastModified remoteCell then cell
                              else remoteCell)
                     localCells;
          seen = set (map cell_id chosen)
      in chosen @ filter (\<lambda>cell. cell_id cell \<notin> seen) remoteCells)"

definition mergeTranscriptArrays ::
  "TranscriptMessage list \<Rightarrow> TranscriptMessage list \<Rightarrow> TranscriptMessage list" where
  "mergeTranscriptArrays localMsgs remoteMsgs =
     (let m0 = foldl (\<lambda>m msg. map_set (msg_id msg) msg m) [] remoteMsgs;
          m1 = foldl (\<lambda>m msg.
                        case map_of m (msg_id msg) of
                          None \<Rightarrow> map_set (msg_id msg) msg m
                        | Some existing \<Rightarrow>
                            if msg_timestamp existing \<le> msg_timestamp msg
                            then map_set (msg_id msg) msg m else m)
                     m0 localMsgs
      in sort_key msg_timestamp (map snd m1))"

text \<open>\<open>mergeMcqAnswers\<close> builds a \<open>Map\<close> from the remote entries, lets each local entry
  replace an absent or not-newer one, and turns the result into an object again; key by
  key that is the following.\<close>

definition mergeMcqAnswers ::
  "(string \<rightharpoonup> MCQAnswerSnapshot) \<Rightarrow> (string \<rightharpoonup> MCQAnswerSnapshot)
     \<Rightarrow> (string \<rightharpoonup> MCQAnswerSnapshot)" where
  "mergeMcqAnswers localAns remoteAns =
     (\<lambda>qid. case localAns qid of
               None \<Rightarrow> remoteAns qid
             | Some answer \<Rightarrow>
                 (case remoteAns qid of
                    None \<Rightarrow> Some answer
                  | Some existing \<Rightarrow>
                      if ans_updatedAt existing \<le> ans_updatedAt answer then Some answer
                      else Some existing))"

definition mergeSnapshots ::
  "EduNotebookSnapshot \<Rightarrow> EduNotebookSnapshot \<Rightarrow> NotebookBinding
     \<Rightarrow> EduNotebookSnapshot \<times> NotebookBinding" where
  "mergeSnapshots localS remoteS b0 =
     (let (now, b) = clock b0
      in (\<lparr>userId = ctx_userId (b_context b),
           notebookId = ctx_notebookId (b_context b),
           notebookUri = ctx_notebookUri (b_context b),
           viewType = ctx_viewType (b_context b),
           metadata = deepClone (if updatedAt localS \<ge> updatedAt remoteS then metadata localS
                                 else metadata remoteS),
           transientOptions = deepClone (transientOptions localS),
           cells = mergeCells (cells localS) (cells remoteS),
           transcripts = mergeTranscriptArrays (transcripts localS) (transcripts remoteS),
           mcqAnswers = mergeMcqAnswers (mcqAnswers localS) (mcqAnswers remoteS),
           lessonProgress = (case lessonProgress localS of
                               Some lp \<Rightarrow> Some lp
                             | None \<Rightarrow> lessonProgress remoteS),
           version = js_add (max (version localS) (version remoteS)) 1,
           updatedAt = now,
           pending = None\<rparr>, b))"

subsection \<open>NotebookBinding: the save protocol\<close>

definition persistSession :: "NotebookBinding \<Rightarrow> (error + unit) \<times> NotebookBinding" where
  "persistSession b0 =
     (let (now, b) = clock b0;
          session = \<lparr>ss_userId = ctx_userId (b_context b),
                     ss_notebookId = ctx_notebookId (b_context b),
                     ss_notebookUri = ctx_notebookUri (b_context b),
                     ss_viewType = ctx_viewType (b_context b),
                     ss_sessionId = ctx_sessionId (b_context b),
                     lastOpened = now\<rparr>;
          b1 = b\<lparr>b_cache := writeSession session (b_cache b)\<rparr>
      in case saveSession session (b_firestore b1) of
           (Inr u, fs) \<Rightarrow> (Inr (), b1\<lparr>b_firestore := fs\<rparr>)
         | (Inl err, fs) \<Rightarrow>
             if err = OfflineError then (Inr (), b1\<lparr>b_firestore := fs\<rparr>)
             else (Inl err, b1\<lparr>b_firestore := fs\<rparr>))"

definition handleConflict ::
  "EduNotebookSnapshot \<Rightarrow> NotebookBinding \<Rightarrow> (error + unit) \<times> NotebookBinding" where
  "handleConflict localSnapshot b =
     (let uid = ctx_userId (b_context b); nid = ctx_notebookId (b_context b)
      in case getNotebook uid nid (b_firestore b) of
           (Inl err, fs) \<Rightarrow> (Inl err, b\<lparr>b_firestore := fs\<rparr>)
         | (Inr None, fs) \<Rightarrow>
             (let b1 = b\<lparr>b_firestore := fs, b_version := version localSnapshot\<rparr>
              in case saveNotebook localSnapshot None (b_firestore b1) of
                   (Inl err, fs1) \<Rightarrow> (Inl err, b1\<lparr>b_firestore := fs1\<rparr>)
                 | (Inr saved, fs1) \<Rightarrow>
                     (Inr (), b1\<lparr>b_firestore := fs1, b_didPersist := Suc (b_didPersist b1)\<rparr>))
         | (Inr (Some remoteS), fs) \<Rightarrow>
             (let (merged, b1) = mergeSnapshots localSnapshot remoteS (b\<lparr>b_firestore := fs\<rparr>);
                  b2 = b1\<lparr>b_version := version merged, b_lastSnapshot := Some merged\<rparr>;
                  b3 = b2\<lparr>b_cache := writeNotebook merged (b_cache b2)\<rparr>
              in case saveNotebook merged (Some (version remoteS)) (b_firestore b3) of
                   (Inr saved, fs1) \<Rightarrow>
                     (Inr (), b3\<lparr>b_firestore := fs1, b_didPersist := Suc (b_didPersist b3)\<rparr>)
                 | (Inl err, fs1) \<Rightarrow>
                     if err = OfflineError
                     then (Inr (),
                           b3\<lparr>b_firestore := fs1,
                              b_cache := storePendingSnapshot uid nid (merged\<lparr>pending := Some True\<rparr>)
                                           (b_cache b3)\<rparr>)
                     else (Inl err, b3\<lparr>b_firestore := fs1\<rparr>)))"

definition persistInternal :: "NotebookBinding \<Rightarrow> (error + unit) \<times> NotebookBinding" where
  "persistInternal b0 =
     (let (snapshot, b1) = captureSnapshot b0;
          b2 = b1\<lparr>b_lastSnapshot := Some snapshot\<rparr>;
          b3 = b2\<lparr>b_cache := writeNotebook snapshot (b_cache b2)\<rparr>;
          uid = ctx_userId (b_context b3); nid = ctx_notebookId (b_context b3)
      in case saveNotebook snapshot (Some (b_version b3)) (b_firestore b3) of
           (Inr persisted, fs) \<Rightarrow>
             (let b4 = b3\<lparr>b_firestore := fs, b_version := version persisted,
                          b_lastSnapshot := Some persisted\<rparr>;
                  b5 = b4\<lparr>b_cache := writeNotebook persisted (b_cache b4)\<rparr>;
                  b6 = b5\<lparr>b_firestore := deletePendingSnapshot uid nid (b_firestore b5)\<rparr>;
                  b7 = b6\<lparr>b_didPersist := Suc (b_didPersist b6)\<rparr>
              in persistSession b7)
         | (Inl err, fs) \<Rightarrow>
             if err = ConflictError
             then (case handleConflict snapshot (b3\<lparr>b_firestore := fs\<rparr>) of
                     (Inl err', b4) \<Rightarrow> (Inl err', b4)
                   | (Inr u, b4) \<Rightarrow> persistSession b4)
             else if err = OfflineError
             then persistSession
                    (b3\<lparr>b_firestore := fs,
                        b_cache := storePendingSnapshot uid nid (snapshot\<lparr>pending := Some True\<rparr>)
                                     (b_cache b3)\<rparr>)
             else (Inl err, b3\<lparr>b_firestore := fs\<rparr>))"

text \<open>
  \<open>ensurePersist()\<close> as its caller sees it: the outcome the returned promise settles with,
  and the state then. \<open>inFlight\<close> is \<open>None\<close> when \<open>pendingPersist\<close> is unset at the call, and
  otherwise the outcome of the save whose promise the field holds; \<open>b\<close> is the state that
  save leaves (the state at the call when there is none).
  \<^item> With the field unset, \<open>persistInternal\<close> starts at once.
  \<^item> Otherwise the write is attached by \<open>pendingPersist.then(() => persistInternal())\<close>:
    it runs when the save in flight is fulfilled; when that save is rejected the callback
    never runs and the returned promise is rejected with the same error.

  \<open>flush()\<close> cancels the debounce timer, which touches none of this state, and returns
  \<open>ensurePersist()\<close>. The promises themselves, and what \<open>finally\<close> does to the field, are
  followed in the chain of saves below.
\<close>

definition persistAfter ::
  "(error + unit) option \<Rightarrow> NotebookBinding \<Rightarrow> (error + unit) \<times> NotebookBinding" where
  "persistAfter inFlight b =
     (case inFlight of
        None \<Rightarrow> persistInternal b
      | Some (Inl err) \<Rightarrow> (Inl err, b)
      | Some (Inr u) \<Rightarrow> persistInternal b)"

definition flush ::
  "(error + unit) option \<Rightarrow> NotebookBinding \<Rightarrow> (error + unit) \<times> NotebookBinding" where
  "flush inFlight b = persistAfter inFlight b"

subsection \<open>NotebookBinding: restore\<close>

text \<open>The replay loop of \<open>performRestore\<close>. An \<open>OfflineError\<close> re-queues the snapshot under
  the binding's own key and breaks; any other error is caught and the loop goes on.\<close>

fun replayPending :: "EduNotebookSnapshot list \<Rightarrow> NotebookBinding \<Rightarrow> NotebookBinding" where
  "replayPending [] b = b"
| "replayPending (p # rest) b =
     (case saveNotebook (p\<lparr>pending := None\<rparr>) (Some (js_sub (version p) 1)) (b_firestore b) of
        (Inr saved, fs) \<Rightarrow> replayPending rest (b\<lparr>b_firestore := fs\<rparr>)
      | (Inl err, fs) \<Rightarrow>
          if err = OfflineError
          then b\<lparr>b_firestore := fs,
                 b_cache := storePendingSnapshot (ctx_userId (b_context b))
                              (ctx_notebookId (b_context b)) p (b_cache b)\<rparr>
          else replayPending rest (b\<lparr>b_firestore := fs\<rparr>))"

definition performRestore ::
  "NotebookBinding \<Rightarrow> (error + NotebookRestorationResult) \<times> NotebookBinding" where
  "performRestore b0 =
     (let uid = ctx_userId (b_context b0); nid = ctx_notebookId (b_context b0);
          (cachedPending, c1) = consumePendingSnapshots uid (b_cache b0);
          b1 = b0\<lparr>b_cache := c1\<rparr>;
          cached = readNotebook uid nid (b_cache b1)
      in case (case getNotebook uid nid (b_firestore b1) of
                 (Inl err, fs) \<Rightarrow> if err = OfflineError then (Inr None, fs) else (Inl err, fs)
               | (Inr r, fs) \<Rightarrow> (Inr r, fs)) of
           (Inl err, fs) \<Rightarrow> (Inl err, b1\<lparr>b_firestore := fs\<rparr>)
         | (Inr remote, fs) \<Rightarrow>
             (let b2 = b1\<lparr>b_firestore := fs\<rparr>;
                  b3 = (if cachedPending \<noteq> [] \<and> remote \<noteq> None
                        then replayPending cachedPending b2 else b2)
              in case chooseSnapshot remote cached of
                   Some snapshot \<Rightarrow>
                     (Inr \<lparr>appliedRemote = (remote \<noteq> None),
                           source = (if remote \<noteq> None then Remote else LocalCache)\<rparr>,
                      applySnapshot snapshot b3)
                 | None \<Rightarrow> (Inr \<lparr>appliedRemote = False, source = Empty\<rparr>, b3)))"

subsection \<open>NotebookBinding: ensurePersist and the promise chain\<close>

text \<open>
  \<open>ensurePersist\<close> keeps one field, \<open>pendingPersist\<close>. Each call creates a promise; calls
  are numbered in order and call \<open>k\<close> owns the run \<open>k\<close> of \<open>persistInternal\<close> and the promise
  \<open>k\<close> that \<open>ensurePersist\<close> returns.
  \<^item> With \<open>pendingPersist\<close> unset, the call starts \<open>persistInternal\<close> at once and stores
    \<open>persistInternal().finally(clear)\<close>.
  \<^item> Otherwise it stores \<open>pendingPersist.then(() => persistInternal()).finally(clear)\<close>:
    run \<open>k\<close> is attached to the promise held in the field and starts when that promise is
    fulfilled; if that promise is rejected the \<open>then\<close> callback is skipped and promise \<open>k\<close>
    is rejected in turn.
  \<^item> \<open>clear\<close> is \<open>() => { this.pendingPersist = undefined; }\<close>, run when the promise it
    is attached to settles, whatever the field holds by then.

  An event is a call of \<open>ensurePersist\<close> (\<open>flush()\<close> makes one directly, the delayer makes
  one when its timer fires) or \<open>Settle k ok\<close>, run \<open>k\<close> of \<open>persistInternal\<close> completing (\<open>ok\<close>) or
  throwing. \<open>running\<close> lists the runs in flight, \<open>chained\<close> the attached continuations
  \<open>(p, k)\<close> in the order they were attached, \<open>skipped\<close> the calls whose \<open>persistInternal\<close>
  never ran.
\<close>

record persist_chain =
  pendingPersist :: "nat option"
  running :: "nat list"
  chained :: "(nat \<times> nat) list"
  skipped :: "nat list"
  calls :: nat

datatype chain_event = EnsurePersist | Settle nat bool

text \<open>The calls rejected without running when promise \<open>k\<close> is rejected. A continuation is
  attached after the promise it waits for was created, so one pass in order finds them.\<close>

fun rejected :: "nat \<Rightarrow> (nat \<times> nat) list \<Rightarrow> nat list" where
  "rejected k [] = []"
| "rejected k ((p, j) # rest) = (if p = k then j # rejected j rest else rejected k rest)"

definition ensurePersist :: "persist_chain \<Rightarrow> persist_chain" where
  "ensurePersist c =
     (let k = calls c
      in case pendingPersist c of
           None \<Rightarrow> c\<lparr>pendingPersist := Some k, running := running c @ [k], calls := Suc k\<rparr>
         | Some p \<Rightarrow> c\<lparr>pendingPersist := Some k, chained := chained c @ [(p, k)], calls := Suc k\<rparr>)"

text \<open>Run \<open>k\<close> of \<open>persistInternal\<close> settles: the \<open>finally\<close> callback of promise \<open>k\<close> clears the
  field, then the continuation attached to promise \<open>k\<close>, if any, starts its run (\<open>ok\<close>) or is
  rejected together with everything chained behind it.\<close>

definition settle :: "nat \<Rightarrow> bool \<Rightarrow> persist_chain \<Rightarrow> persist_chain" where
  "settle k ok c =
     (if k \<notin> set (running c) then c
      else (let c1 = c\<lparr>running := removeAll k (running c), pendingPersist := None\<rparr>
            in if ok
               then (case map_of (chained c1) k of
                       None \<Rightarrow> c1
                     | Some j \<Rightarrow> c1\<lparr>running := running c1 @ [j],
                                    chained := removeAll (k, j) (chained c1)\<rparr>)
               else (let gone = rejected k (chained c1)
                     in c1\<lparr>skipped := skipped c1 @ gone,
                           chained := filter (\<lambda>(p, j). j \<notin> set gone) (chained c1)\<rparr>)))"

fun chain_step :: "chain_event \<Rightarrow> persist_chain \<Rightarrow> persist_chain" where
  "chain_step EnsurePersist c = ensurePersist c"
| "chain_step (Settle k ok) c = settle k ok c"

definition idle :: persist_chain where
  "idle = \<lparr>pendingPersist = None, running = [], chained = [], skipped = [], calls = 0\<rparr>"

definition chain_run :: "chain_event list \<Rightarrow> persist_chain \<Rightarrow> persist_chain" where
  "chain_run evs c = foldl (\<lambda>c ev. chain_step ev c) c evs"

subsection \<open>Notions the claims are stated with\<close>

text \<open>The snapshot a scheduled write captures, and the remote save it issues first.\<close>

definition captured :: "NotebookBinding \<Rightarrow> EduNotebookSnapshot" where
  "captured b = fst (captureSnapshot b)"

definition firstSave :: "NotebookBinding \<Rightarrow> (error + EduNotebookSnapshot) \<times> firestore" where
  "firstSave b = saveNotebook (captured b) (Some (b_version b)) (b_firestore b)"

text \<open>After a conflict on the first save: the fetch \<open>handleConflict\<close> makes, the snapshot
  it merges from a fetched remote snapshot (the merge reads the clock once more, after the
  capture), and the retry it submits.\<close>

definition fetched :: "NotebookBinding \<Rightarrow> (error + EduNotebookSnapshot option) \<times> firestore" where
  "fetched b =
     getNotebook (ctx_userId (b_context b)) (ctx_notebookId (b_context b)) (snd (firstSave b))"

definition mergedWith :: "NotebookBinding \<Rightarrow> EduNotebookSnapshot \<Rightarrow> EduNotebookSnapshot" where
  "mergedWith b remoteS = fst (mergeSnapshots (captured b) remoteS (snd (captureSnapshot b)))"

definition retry ::
  "NotebookBinding \<Rightarrow> EduNotebookSnapshot \<Rightarrow> (error + EduNotebookSnapshot) \<times> firestore" where
  "retry b remoteS =
     saveNotebook (mergedWith b remoteS) (Some (version remoteS)) (snd (fetched b))"

text \<open>The outcome of \<open>persistSession\<close> when \<open>n\<close> remote calls were made before it: only a
  failure other than offline is raised.\<close>

definition sessionOutcome :: "nat \<Rightarrow> NotebookBinding \<Rightarrow> error + unit" where
  "sessionOutcome n b =
     (if take 1 (drop n (incoming (b_firestore b))) = [Failing] then Inl OtherError else Inr ())"

text \<open>The \<open>saveNotebook\<close> calls an operation of the binding issues, read off the history.\<close>

definition issued ::
  "(NotebookBinding \<Rightarrow> 'r \<times> NotebookBinding) \<Rightarrow> NotebookBinding \<Rightarrow> save_call list" where
  "issued f b = drop (length (saveLog (b_firestore b))) (saveLog (b_firestore (snd (f b))))"

text \<open>The pending queue of the binding's own (user, document) pair.\<close>

definition queue :: "NotebookBinding \<Rightarrow> EduNotebookSnapshot list" where
  "queue b = pendingFor (ctx_userId (b_context b)) (ctx_notebookId (b_context b)) (b_cache b)"

text \<open>What a successful save does to the stored version: the store then holds the version
  submitted; and when the call named an expected version and found a document whose version
  is below \<open>2^53\<close> in magnitude, the version submitted is strictly larger than the one found.\<close>

definition save_increases :: "save_call \<Rightarrow> bool" where
  "save_increases c =
     (sc_outcome c = None \<longrightarrow>
        sc_stored c = Some (version (sc_snapshot c)) \<and>
        (case sc_expected c of
           None \<Rightarrow> True
         | Some e \<Rightarrow>
             (case sc_prior c of
                None \<Rightarrow> True
              | Some v \<Rightarrow> \<bar>v\<bar> < 9007199254740992 \<longrightarrow> v < version (sc_snapshot c))))"

text \<open>What one pass of the replay loop leaves behind: \<open>cs\<close> are the saves it issued.\<close>

definition replayed ::
  "EduNotebookSnapshot list \<Rightarrow> NotebookBinding \<Rightarrow> NotebookBinding \<Rightarrow> save_call list \<Rightarrow> bool" where
  "replayed ps b b' cs =
     (saveLog (b_firestore b') = saveLog (b_firestore b) @ cs \<and>
      length cs \<le> length ps \<and>
      map sc_snapshot cs = map (\<lambda>p. p\<lparr>pending := None\<rparr>) (take (length cs) ps) \<and>
      map sc_expected cs = map (\<lambda>p. Some (js_sub (version p) 1)) (take (length cs) ps) \<and>
      Some OfflineError \<notin> set (map sc_outcome (butlast cs)) \<and>
      (if cs \<noteq> [] \<and> sc_outcome (last cs) = Some OfflineError
       then b_cache b' = storePendingSnapshot (ctx_userId (b_context b))
                           (ctx_notebookId (b_context b)) (ps ! (length cs - 1)) (b_cache b)
       else length cs = length ps \<and> b_cache b' = b_cache b) \<and>
      b_context b' = b_context b)"

text \<open>Two \<open>flush()\<close> calls in a row, with no edit between them (\<open>flush(); flush()\<close>): the
  first finds what \<open>inFlight\<close> says, the second finds the first in flight. An awaiting caller
  (\<open>await flush(); await flush()\<close>) gets the same: after an error it never makes the second
  call, and after a first call that returned the second starts \<open>persistInternal\<close> either way.\<close>

definition flushTwice ::
  "(error + unit) option \<Rightarrow> NotebookBinding \<Rightarrow> (error + unit) \<times> NotebookBinding" where
  "flushTwice inFlight b = (case flush inFlight b of (r1, b1) \<Rightarrow> flush (Some r1) b1)"

subsection \<open>Concrete inputs\<close>

text \<open>A binding as the tests build it: user \<open>u\<close>, notebook \<open>n\<close>, one code cell, and the
  tests' \<open>fakeClock\<close>, whose readings are 2, 3, 4, ...\<close>

definition demoContext :: NotebookPersistenceContext where
  "demoContext =
     \<lparr>ctx_userId = ''u'', ctx_notebookId = ''n'', ctx_sessionId = ''s'',
      ctx_notebookUri = ''test://notebook/demo'', ctx_viewType = ''edu-test-notebook''\<rparr>"

definition demoModel :: PersistableNotebookModel where
  "demoModel =
     \<lparr>model_cells =
        [TestNotebookCell 1 ''initial'' Code ''python'' emptyCellMetadata emptyObject []],
      model_metadata = emptyObject, model_transientOptions = emptyObject\<rparr>"

definition demoCell :: "string \<Rightarrow> int \<Rightarrow> EduNotebookCellSnapshot" where
  "demoCell text t =
     \<lparr>cell_id = ''test://cell/1'', cell_handle = 1, cell_uri = ''test://cell/1'',
      cell_kind = Code, cell_language = ''python'', cell_mime = None, cell_content = text,
      cell_metadata = Some emptyCellMetadata, cell_internalMetadata = Some emptyObject,
      cell_outputs = [], lastModified = t\<rparr>"

definition demoSnapshot :: "string \<Rightarrow> int \<Rightarrow> int \<Rightarrow> EduNotebookSnapshot" where
  "demoSnapshot text v t =
     \<lparr>userId = ''u'', notebookId = ''n'', notebookUri = ''test://notebook/demo'',
      viewType = ''edu-test-notebook'', metadata = emptyObject, transientOptions = emptyObject,
      cells = [demoCell text t], transcripts = [], mcqAnswers = Map.empty,
      lessonProgress = None, version = v, updatedAt = t, pending = None\<rparr>"

definition demoFirestore ::
  "EduNotebookSnapshot option \<Rightarrow> net_event list \<Rightarrow> firestore" where
  "demoFirestore stored evs =
     \<lparr>notebooks = (case stored of None \<Rightarrow> Map.empty | Some s \<Rightarrow> [''u::n'' \<mapsto> s]),
      sessions = Map.empty, incoming = evs, saveLog = []\<rparr>"

definition demoCache ::
  "EduNotebookSnapshot option \<Rightarrow> EduNotebookSnapshot list \<Rightarrow> InMemoryNotebookCache" where
  "demoCache cached queued =
     \<lparr>cache_notebooks = (case cached of None \<Rightarrow> Map.empty | Some s \<Rightarrow> [''u::n'' \<mapsto> s]),
      cache_sessions = Map.empty,
      cache_pending = (if queued = [] then [] else [(''u::n'', queued)])\<rparr>"

definition demoBinding :: "firestore \<Rightarrow> InMemoryNotebookCache \<Rightarrow> NotebookBinding" where
  "demoBinding fs c =
     \<lparr>b_context = demoContext, b_model = demoModel, b_firestore = fs, b_cache = c,
      b_clock = (\<lambda>n. int n + 2), b_clockReads = 0, b_transcripts = [],
      b_mcqAnswers = Map.empty, b_version = 0, b_lastSnapshot = None, b_didPersist = 0\<rparr>"

section \<open>Properties\<close>

subsection \<open>Auxiliary facts: JavaScript numbers\<close>

text \<open>Up to \<open>2^53\<close> in magnitude every integer is a double, so \<open>+\<close> and \<open>-\<close> are exact there;
  beyond, a result stays beyond. At \<open>2^53\<close> itself adding 1 gives \<open>2^53\<close> again.\<close>

lemma quantum_small: "n < 9007199254740992 \<Longrightarrow> quantum n = 1"
  by (simp add: quantum.simps)

lemma quantum_step: "9007199254740992 \<le> n \<Longrightarrow> quantum n = 2 * quantum (n div 2)"
  by (subst quantum.simps) simp

lemma quantum_bounds:
  "4503599627370496 \<le> n \<Longrightarrow> 0 < quantum n \<and> 4503599627370496 * quantum n \<le> n"
proof (induction n rule: quantum.induct)
  case (1 n)
  show ?case
  proof (cases "n < 9007199254740992")
    case True
    then show ?thesis using 1(2) by (simp add: quantum_small)
  next
    case False
    then have "4503599627370496 \<le> n div 2" by simp
    then have ih: "0 < quantum (n div 2) \<and> 4503599627370496 * quantum (n div 2) \<le> n div 2"
      using 1(1) False by simp
    have "quantum n = 2 * quantum (n div 2)" using False by (simp add: quantum_step)
    moreover have "2 * (n div 2) \<le> n" by simp
    ultimately show ?thesis using ih by linarith
  qed
qed

lemma quantum_large:
  assumes "9007199254740992 \<le> n"
  shows "2 \<le> quantum n"
proof -
  have "4503599627370496 \<le> n div 2" using assms by simp
  then have "0 < quantum (n div 2)" using quantum_bounds by blast
  then show ?thesis using quantum_step[OF assms] by simp
qed

lemma toDouble_exact: "\<bar>x\<bar> \<le> 9007199254740992 \<Longrightarrow> toDouble x = x"
proof (cases "\<bar>x\<bar> < 9007199254740992")
  case True
  then have "quantum (nat \<bar>x\<bar>) = 1" by (simp add: quantum_small)
  then show ?thesis by (simp add: toDouble_def Let_def sgn_if)
next
  case False
  assume "\<bar>x\<bar> \<le> 9007199254740992"
  with False have a: "\<bar>x\<bar> = 9007199254740992" by simp
  have "quantum 9007199254740992 = 2" by (simp add: quantum_step quantum_small)
  then show ?thesis using a by (cases "0 \<le> x") (simp_all add: toDouble_def Let_def)
qed

lemma toDouble_magnitude:
  assumes "9007199254740992 \<le> \<bar>x\<bar>"
  shows "\<exists>k. 9007199254740992 \<le> k \<and> toDouble x = sgn x * k"
proof -
  define a where "a = \<bar>x\<bar>"
  define q where "q = int (quantum (nat a))"
  have n: "9007199254740992 \<le> nat a" using assms by (simp add: a_def)
  have q2: "2 \<le> q" using quantum_large[OF n] by (simp add: q_def)
  have "4503599627370496 * quantum (nat a) \<le> nat a" using quantum_bounds[of "nat a"] n by simp
  then have "int (4503599627370496 * quantum (nat a)) \<le> int (nat a)"
    by (simp only: of_nat_le_iff)
  then have qa: "4503599627370496 * q \<le> a" by (simp add: q_def a_def)
  have d: "4503599627370496 \<le> a div q"
  proof -
    have "(4503599627370496 * q) div q \<le> a div q" using qa q2 by (intro zdiv_mono1) simp_all
    then show ?thesis using q2 by simp
  qed
  define m where "m = (if 2 * (a mod q) < q then a div q
               else if q < 2 * (a mod q) then a div q + 1
               else if even (a div q) then a div q else a div q + 1)"
  have md: "a div q \<le> m" by (simp add: m_def)
  have "4503599627370496 * 2 \<le> m * q"
    using d md q2 by (intro mult_mono) simp_all
  moreover have "toDouble x = sgn x * (m * q)"
    by (simp add: toDouble_def Let_def a_def q_def m_def)
  ultimately show ?thesis by auto
qed

lemma toDouble_large: "9007199254740992 \<le> x \<Longrightarrow> 9007199254740992 \<le> toDouble x"
  using toDouble_magnitude[of x] by (auto simp: sgn_if)

lemma toDouble_low: "x \<le> - 9007199254740992 \<Longrightarrow> toDouble x \<le> - 9007199254740992"
  using toDouble_magnitude[of x] by (auto simp: sgn_if)

lemma js_add_exact: "\<bar>a + b\<bar> \<le> 9007199254740992 \<Longrightarrow> js_add a b = a + b"
  by (simp add: js_add_def toDouble_exact)

lemma js_sub_exact: "\<bar>a - b\<bar> \<le> 9007199254740992 \<Longrightarrow> js_sub a b = a - b"
  by (simp add: js_sub_def toDouble_exact)

lemma js_add_one_increases: "\<bar>e\<bar> < 9007199254740992 \<Longrightarrow> e < js_add e 1"
  by (simp add: js_add_exact)

lemma js_add_max_increases:
  assumes "\<bar>e\<bar> < 9007199254740992"
  shows "e < js_add (max l e) 1"
proof (cases "max l e + 1 \<le> 9007199254740992")
  case True
  moreover have "- 9007199254740992 \<le> max l e + 1" using assms by linarith
  ultimately have "\<bar>max l e + 1\<bar> \<le> 9007199254740992" by linarith
  then have "js_add (max l e) 1 = max l e + 1" by (rule js_add_exact)
  then show ?thesis by simp
next
  case False
  then have "9007199254740992 \<le> max l e + 1" by linarith
  then have "9007199254740992 \<le> js_add (max l e) 1"
    unfolding js_add_def by (rule toDouble_large)
  then show ?thesis using assms by simp
qed

lemma js_sub_one_decreases:
  assumes "\<bar>js_sub w 1\<bar> < 9007199254740992"
  shows "js_sub w 1 < w"
proof (cases "\<bar>w - 1\<bar> \<le> 9007199254740992")
  case True
  then show ?thesis by (simp add: js_sub_exact)
next
  case False
  then have "9007199254740992 \<le> w - 1 \<or> w - 1 \<le> - 9007199254740992" by auto
  then have "9007199254740992 \<le> js_sub w 1 \<or> js_sub w 1 \<le> - 9007199254740992"
    unfolding js_sub_def using toDouble_large toDouble_low by blast
  then show ?thesis using assms by auto
qed

lemma js_add_stalls: "js_add 9007199254740992 1 = 9007199254740992"
  by (simp add: js_add_def toDouble_def quantum_step quantum_small Let_def)

subsection \<open>Auxiliary facts: the stores\<close>

lemma map_of_map_set: "map_of (map_set k v m) = (map_of m)(k \<mapsto> v)"
  by (induction m) auto

lemma arrive_props:
  assumes "arrive fs = (r, fs')"
  shows "saveLog fs' = saveLog fs"
    and "sessions fs' = sessions fs"
    and "r \<noteq> Some ConflictError"
    and "incoming fs' = tl (incoming fs)"
  using assms
  by (auto simp: arrive_def split: list.splits net_event.splits)

lemma saveNotebook_entry:
  assumes "saveNotebook s ev fs = (r, fs')"
  shows "\<exists>c. saveLog fs' = saveLog fs @ [c] \<and> sc_snapshot c = s \<and> sc_expected c = ev \<and>
             sc_outcome c = (case r of Inl e \<Rightarrow> Some e | Inr p \<Rightarrow> None) \<and>
             (sc_outcome c = None \<longrightarrow> sc_stored c = Some (version s)) \<and>
             (sc_outcome c = None \<longrightarrow> ev \<noteq> None \<longrightarrow> sc_prior c \<noteq> None
                \<longrightarrow> sc_prior c = ev)"
  using assms
  by (auto simp: saveNotebook_def arrive_def mem_saveNotebook_def logged_def deepClone_def
      Let_def split: list.splits net_event.splits prod.splits sum.splits option.splits if_splits)

lemma saveNotebook_log:
  assumes "saveNotebook s ev fs = (r, fs')"
  shows "\<exists>c. saveLog fs' = saveLog fs @ [c] \<and> sc_snapshot c = s \<and> sc_expected c = ev \<and>
             sc_outcome c = (case r of Inl e \<Rightarrow> Some e | Inr p \<Rightarrow> None) \<and>
             (ev = None \<longrightarrow> save_increases c) \<and>
             (\<forall>e. ev = Some e \<longrightarrow> (\<bar>e\<bar> < 9007199254740992 \<longrightarrow> e < version s)
                    \<longrightarrow> save_increases c)"
proof -
  obtain c where c: "saveLog fs' = saveLog fs @ [c]" "sc_snapshot c = s" "sc_expected c = ev"
      "sc_outcome c = (case r of Inl e \<Rightarrow> Some e | Inr p \<Rightarrow> None)"
      "sc_outcome c = None \<longrightarrow> sc_stored c = Some (version s)"
      "sc_outcome c = None \<longrightarrow> ev \<noteq> None \<longrightarrow> sc_prior c \<noteq> None \<longrightarrow> sc_prior c = ev"
    using saveNotebook_entry[OF assms] by (elim exE conjE) (rule that)
  have "ev = None \<longrightarrow> save_increases c"
    using c(2,3,5) by (simp add: save_increases_def)
  moreover have "\<forall>e. ev = Some e \<longrightarrow> (\<bar>e\<bar> < 9007199254740992 \<longrightarrow> e < version s)
                    \<longrightarrow> save_increases c"
    using c(2,3,5,6) by (auto simp: save_increases_def split: option.splits)
  ultimately show ?thesis using c(1,2,3,4) by blast
qed

lemma saveNotebook_props:
  assumes "saveNotebook s ev fs = (r, fs')"
  shows "incoming fs' = tl (incoming fs)"
    and "r = Inl ConflictError \<Longrightarrow> notebooks fs' (key (userId s) (notebookId s)) \<noteq> None"
    and "r = Inr p \<Longrightarrow> p = s \<and> notebooks fs' (key (userId s) (notebookId s)) = Some s"
    and "(r = Inl OfflineError) = (\<exists>rest. incoming fs = Unreachable # rest)"
    and "sessions fs' = sessions fs"
  using assms
  by (auto simp: saveNotebook_def arrive_def mem_saveNotebook_def deepClone_def
      Let_def split: list.splits net_event.splits prod.splits sum.splits option.splits if_splits)

lemma getNotebook_props:
  assumes "getNotebook uid nid fs = (r, fs')"
  shows "saveLog fs' = saveLog fs"
    and "incoming fs' = tl (incoming fs)"
    and "r \<noteq> Inl ConflictError"
    and "r = Inr (Some x) \<Longrightarrow> notebooks fs' (key uid nid) = Some x"
  using assms
  by (auto simp: getNotebook_def arrive_def mem_getNotebook_def deepClone_def
      split: list.splits net_event.splits prod.splits option.splits if_splits)

lemma getNotebook_eval:
  assumes "incoming fs = Reachable # rest"
  shows "fst (getNotebook uid nid fs) = Inr (notebooks fs (key uid nid))"
    and "incoming (snd (getNotebook uid nid fs)) = rest"
    and "notebooks (snd (getNotebook uid nid fs)) = notebooks fs"
  using assms
  by (simp_all add: getNotebook_def arrive_def mem_getNotebook_def deepClone_def
      split: option.splits)

lemma saveNotebook_overtaken:
  assumes "incoming fs = ExternalWrite w # rest"
    and "key (userId w) (notebookId w) = key (userId s) (notebookId s)"
    and "version w \<noteq> e"
  shows "fst (saveNotebook s (Some e) fs) = Inl ConflictError"
  using assms
  by (simp add: saveNotebook_def arrive_def mem_saveNotebook_def Let_def)

lemma pendingFor_store:
  "pendingFor uid nid (storePendingSnapshot uid nid s c) = pendingFor uid nid c @ [s]"
  by (simp add: pendingFor_def storePendingSnapshot_def Let_def map_of_map_set deepClone_def)

lemma pendingFor_writeNotebook: "pendingFor uid nid (writeNotebook s c) = pendingFor uid nid c"
  by (simp add: pendingFor_def writeNotebook_def)

lemma map_of_filter_key:
  "map_of (filter (\<lambda>(k, v). Q k) xs) k = (if Q k then map_of xs k else None)"
  by (induction xs) auto

lemma consume_empties_queue:
  "pendingFor uid nid (snd (consumePendingSnapshots uid c)) = []"
  by (simp add: consumePendingSnapshots_def pendingFor_def Let_def map_of_filter_key key_def)

lemma map_deepClone: "map deepClone xs = xs"
  by (induction xs) (simp_all add: deepClone_def)

subsection \<open>Auxiliary facts: capture, merge, session and the first save\<close>

lemma captureSnapshot_props:
  "userId (captured b) = ctx_userId (b_context b)"
  "notebookId (captured b) = ctx_notebookId (b_context b)"
  "version (captured b) = js_add (b_version b) 1"
  "pending (captured b) = None"
  "captureSnapshot b = (captured b, b\<lparr>b_clockReads := Suc (b_clockReads b)\<rparr>)"
  by (auto simp: captured_def captureSnapshot_def clock_def Let_def split: prod.splits)

lemma persistSession_props:
  assumes "persistSession b = (r, b')"
  shows "cache_notebooks (b_cache b') = cache_notebooks (b_cache b)"
    and "cache_pending (b_cache b') = cache_pending (b_cache b)"
    and "saveLog (b_firestore b') = saveLog (b_firestore b)"
    and "b_version b' = b_version b"
    and "b_didPersist b' = b_didPersist b"
    and "b_lastSnapshot b' = b_lastSnapshot b"
    and "b_context b' = b_context b"
    and "r = (if take 1 (incoming (b_firestore b)) = [Failing] then Inl OtherError else Inr ())"
  using assms
  by (auto simp: persistSession_def clock_def Let_def saveSession_def writeSession_def arrive_def
      split: prod.splits sum.splits if_splits list.splits net_event.splits)

lemma persistSession_quiet:
  assumes "incoming (b_firestore b) = []"
  shows "notebooks (b_firestore (snd (persistSession b))) = notebooks (b_firestore b)"
    and "incoming (b_firestore (snd (persistSession b))) = []"
    and "fst (persistSession b) = Inr ()"
  using assms
  by (simp_all add: persistSession_def clock_def Let_def saveSession_def arrive_def
      split: prod.splits)

lemma mergeSnapshots_props:
  "version (fst (mergeSnapshots l r b)) = js_add (max (version l) (version r)) 1"
  "userId (fst (mergeSnapshots l r b)) = ctx_userId (b_context b)"
  "notebookId (fst (mergeSnapshots l r b)) = ctx_notebookId (b_context b)"
  "snd (mergeSnapshots l r b) = b\<lparr>b_clockReads := Suc (b_clockReads b)\<rparr>"
  by (auto simp: mergeSnapshots_def clock_def Let_def split: prod.splits)

lemma mergeSnapshots_cong:
  "b_context b = b_context b' \<Longrightarrow> b_clock b = b_clock b' \<Longrightarrow> b_clockReads b = b_clockReads b'
     \<Longrightarrow> fst (mergeSnapshots l r b) = fst (mergeSnapshots l r b')"
  by (auto simp: mergeSnapshots_def clock_def Let_def split: prod.splits)

lemma mergedWith_props:
  "userId (mergedWith b r) = ctx_userId (b_context b)"
  "notebookId (mergedWith b r) = ctx_notebookId (b_context b)"
  "version (mergedWith b r) = js_add (max (js_add (b_version b) 1) (version r)) 1"
  by (simp_all add: mergedWith_def mergeSnapshots_props captureSnapshot_props)

lemma mergeSnapshots_cells:
  "cells (fst (mergeSnapshots l r b)) = mergeCells (cells l) (cells r)"
  by (simp add: mergeSnapshots_def clock_def Let_def split: prod.splits)

lemma flush_eq: "flush None = persistInternal"
  by (rule ext) (simp add: flush_def persistAfter_def)

lemma flush_None: "flush None b = persistInternal b"
  by (simp add: flush_def persistAfter_def)

lemma flush_chained:
  "flush (Some (Inr ())) b = persistInternal b"
  "flush (Some (Inl err)) b = (Inl err, b)"
  by (simp_all add: flush_def persistAfter_def)

lemma issued_append:
  "saveLog (b_firestore (snd (f b))) = saveLog (b_firestore b) @ cs \<Longrightarrow> issued f b = cs"
  by (simp add: issued_def)

lemma firstSave_log:
  assumes "firstSave b = (r, fs)"
  shows "\<exists>c. saveLog fs = saveLog (b_firestore b) @ [c] \<and> sc_snapshot c = captured b \<and>
             sc_expected c = Some (b_version b) \<and>
             sc_outcome c = (case r of Inl e \<Rightarrow> Some e | Inr p \<Rightarrow> None) \<and> save_increases c"
  using saveNotebook_log[OF assms[unfolded firstSave_def]]
  by (auto simp: captureSnapshot_props(3) js_add_one_increases)

lemma firstSave_offline_iff:
  "(fst (firstSave b) = Inl OfflineError) = (\<exists>rest. incoming (b_firestore b) = Unreachable # rest)"
  using saveNotebook_props(4)[of "captured b" "Some (b_version b)" "b_firestore b"
      "fst (firstSave b)" "snd (firstSave b)"]
  by (simp add: firstSave_def)

lemma firstSave_fresh:
  assumes "notebooks (b_firestore b) (key (ctx_userId (b_context b)) (ctx_notebookId (b_context b))) = None"
    and "incoming (b_firestore b) = [] \<or> hd (incoming (b_firestore b)) = Reachable"
  shows "fst (firstSave b) = Inr (captured b)"
  using assms
  by (auto simp: firstSave_def saveNotebook_def arrive_def mem_saveNotebook_def deepClone_def
      captureSnapshot_props Let_def split: list.splits net_event.splits)

lemma firstSave_matching:
  assumes "notebooks (b_firestore b) (key (ctx_userId (b_context b)) (ctx_notebookId (b_context b)))
             = Some cur"
    and "version cur = b_version b"
    and "incoming (b_firestore b) = []"
  shows "fst (firstSave b) = Inr (captured b)"
  using assms
  by (simp add: firstSave_def saveNotebook_def arrive_def mem_saveNotebook_def deepClone_def
      captureSnapshot_props Let_def)

lemma firstSave_conflict_eval:
  assumes "incoming (b_firestore b) = Reachable # rest"
    and "notebooks (b_firestore b) (key (ctx_userId (b_context b)) (ctx_notebookId (b_context b)))
           = Some cur"
    and "version cur \<noteq> b_version b"
  shows "fst (firstSave b) = Inl ConflictError"
    and "incoming (snd (firstSave b)) = rest"
    and "notebooks (snd (firstSave b)) = notebooks (b_firestore b)"
  using assms
  by (simp_all add: firstSave_def saveNotebook_def arrive_def mem_saveNotebook_def
      captureSnapshot_props Let_def)

subsection \<open>Auxiliary facts: the branches of persistInternal\<close>

text \<open>The three ways \<open>persistInternal\<close> goes on after its first remote save.\<close>

lemma persistInternal_saved:
  assumes "firstSave b0 = (Inr persisted, fs)"
  shows "\<exists>bq. persistInternal b0 = persistSession bq \<and>
              b_version bq = version persisted \<and>
              b_lastSnapshot bq = Some persisted \<and>
              b_cache bq = writeNotebook persisted (writeNotebook (captured b0) (b_cache b0)) \<and>
              b_firestore bq = fs \<and>
              b_didPersist bq = Suc (b_didPersist b0) \<and>
              b_context bq = b_context b0"
  using assms
  apply (simp add: firstSave_def persistInternal_def captureSnapshot_props(5) Let_def
      deletePendingSnapshot_def)
  apply (rule exI, rule conjI, rule refl)
  apply simp
  done

lemma persistInternal_offline:
  assumes "firstSave b0 = (Inl OfflineError, fs)"
  shows "\<exists>bq. persistInternal b0 = persistSession bq \<and>
              b_version bq = b_version b0 \<and>
              b_cache bq =
                storePendingSnapshot (ctx_userId (b_context b0)) (ctx_notebookId (b_context b0))
                  ((captured b0)\<lparr>pending := Some True\<rparr>)
                  (writeNotebook (captured b0) (b_cache b0)) \<and>
              b_firestore bq = fs \<and>
              b_didPersist bq = b_didPersist b0 \<and>
              b_context bq = b_context b0"
  using assms
  apply (simp add: firstSave_def persistInternal_def captureSnapshot_props(5) Let_def)
  apply (rule exI, rule conjI, rule refl)
  apply simp
  done

lemma persistInternal_other:
  assumes "firstSave b0 = (Inl OtherError, fs)"
  shows "fst (persistInternal b0) = Inl OtherError \<and> b_firestore (snd (persistInternal b0)) = fs"
  using assms
  by (simp add: firstSave_def persistInternal_def captureSnapshot_props(5) Let_def)

lemma persistInternal_conflict:
  assumes "firstSave b0 = (Inl ConflictError, fs)"
  shows "\<exists>bc. persistInternal b0 =
                (case handleConflict (captured b0) bc of
                   (Inl err', b4) \<Rightarrow> (Inl err', b4)
                 | (Inr u, b4) \<Rightarrow> persistSession b4) \<and>
              b_firestore bc = fs \<and>
              b_cache bc = writeNotebook (captured b0) (b_cache b0) \<and>
              b_context bc = b_context b0 \<and> b_clock bc = b_clock b0 \<and>
              b_clockReads bc = Suc (b_clockReads b0) \<and>
              b_didPersist bc = b_didPersist b0"
  using assms
  apply (simp add: firstSave_def persistInternal_def captureSnapshot_props(5) Let_def)
  apply (rule exI, rule conjI, rule refl)
  apply simp
  done

text \<open>\<open>handleConflict\<close> when the fetch returns the remote snapshot.\<close>

lemma handleConflict_merged:
  assumes fetch: "getNotebook (ctx_userId (b_context b)) (ctx_notebookId (b_context b)) (b_firestore b)
                    = (Inr (Some remoteS), fs2)"
    and retry: "saveNotebook (fst (mergeSnapshots localS remoteS b)) (Some (version remoteS)) fs2
                  = (r, fs3)"
  shows "\<exists>b'. handleConflict localS b =
                 ((case r of Inr p \<Rightarrow> Inr ()
                          | Inl e \<Rightarrow> if e = OfflineError then Inr () else Inl e), b') \<and>
              b_firestore b' = fs3 \<and>
              b_cache b' =
                (if r = Inl OfflineError
                 then storePendingSnapshot (ctx_userId (b_context b)) (ctx_notebookId (b_context b))
                        ((fst (mergeSnapshots localS remoteS b))\<lparr>pending := Some True\<rparr>)
                        (writeNotebook (fst (mergeSnapshots localS remoteS b)) (b_cache b))
                 else writeNotebook (fst (mergeSnapshots localS remoteS b)) (b_cache b)) \<and>
              b_version b' = version (fst (mergeSnapshots localS remoteS b)) \<and>
              b_lastSnapshot b' = Some (fst (mergeSnapshots localS remoteS b)) \<and>
              b_didPersist b' = (case r of Inr p \<Rightarrow> Suc (b_didPersist b) | Inl e \<Rightarrow> b_didPersist b) \<and>
              b_context b' = b_context b"
proof -
  have cong: "fst (mergeSnapshots localS remoteS (b\<lparr>b_firestore := fs2\<rparr>))
                = fst (mergeSnapshots localS remoteS b)"
    by (rule mergeSnapshots_cong) simp_all
  obtain m bm where m: "mergeSnapshots localS remoteS (b\<lparr>b_firestore := fs2\<rparr>) = (m, bm)"
    by (cases "mergeSnapshots localS remoteS (b\<lparr>b_firestore := fs2\<rparr>)")
  have m_eq: "m = fst (mergeSnapshots localS remoteS b)" using cong m by simp
  have bm: "bm = b\<lparr>b_firestore := fs2, b_clockReads := Suc (b_clockReads b)\<rparr>"
    using mergeSnapshots_props(4)[of localS remoteS "b\<lparr>b_firestore := fs2\<rparr>"] m by simp
  show ?thesis
    using fetch retry m
    by (cases r) (auto simp: handleConflict_def Let_def m_eq[symmetric] bm)
qed

lemma handleConflict_log:
  "\<exists>cs. saveLog (b_firestore (snd (handleConflict l b))) = saveLog (b_firestore b) @ cs \<and>
        (\<forall>c\<in>set cs. save_increases c)"
proof -
  let ?uid = "ctx_userId (b_context b)" and ?nid = "ctx_notebookId (b_context b)"
  obtain g fs where g: "getNotebook ?uid ?nid (b_firestore b) = (g, fs)"
    by (cases "getNotebook ?uid ?nid (b_firestore b)")
  have lg: "saveLog fs = saveLog (b_firestore b)" using getNotebook_props(1)[OF g] .
  show ?thesis
  proof (cases g)
    case (Inl err)
    then show ?thesis using g lg by (simp add: handleConflict_def Let_def)
  next
    case (Inr ro)
    show ?thesis
    proof (cases ro)
      case None
      obtain r fs3 where rt: "saveNotebook l None fs = (r, fs3)"
        by (cases "saveNotebook l None fs")
      have sn: "b_firestore (snd (handleConflict l b)) = fs3"
        using g Inr None rt by (cases r) (simp_all add: handleConflict_def Let_def)
      obtain c where "saveLog fs3 = saveLog fs @ [c]" "save_increases c"
        using saveNotebook_log[OF rt] by auto
      then show ?thesis using sn lg by simp
    next
      case (Some remoteS)
      let ?m = "fst (mergeSnapshots l remoteS b)"
      obtain r fs3 where rt: "saveNotebook ?m (Some (version remoteS)) fs = (r, fs3)"
        by (cases "saveNotebook ?m (Some (version remoteS)) fs")
      obtain b' where "handleConflict l b =
            ((case r of Inr p \<Rightarrow> Inr () | Inl e \<Rightarrow> if e = OfflineError then Inr () else Inl e), b')"
        and b': "b_firestore b' = fs3"
        using handleConflict_merged[OF g[unfolded Inr Some] rt] by blast
      then have sn: "b_firestore (snd (handleConflict l b)) = fs3" by simp
      have "\<bar>version remoteS\<bar> < 9007199254740992 \<longrightarrow> version remoteS < version ?m"
        by (simp add: mergeSnapshots_props js_add_max_increases)
      then obtain c where "saveLog fs3 = saveLog fs @ [c]" "save_increases c"
        using saveNotebook_log[OF rt] by auto
      then show ?thesis using sn lg by simp
    qed
  qed
qed

lemma persistInternal_log:
  "\<exists>cs. saveLog (b_firestore (snd (persistInternal b))) = saveLog (b_firestore b) @ cs \<and>
        cs \<noteq> [] \<and> (\<forall>c\<in>set cs. save_increases c)"
proof -
  obtain r fs where sv: "firstSave b = (r, fs)" by (cases "firstSave b")
  obtain c1 where l1: "saveLog fs = saveLog (b_firestore b) @ [c1]" "save_increases c1"
    using firstSave_log[OF sv] by blast
  have sess: "\<And>bq. b_firestore bq = fs \<Longrightarrow>
      saveLog (b_firestore (snd (persistSession bq))) = saveLog (b_firestore b) @ [c1]"
    using l1 persistSession_props(3) by (metis prod.collapse)
  show ?thesis
  proof (cases r)
    case (Inr persisted)
    then obtain bq where "persistInternal b = persistSession bq" "b_firestore bq = fs"
      using persistInternal_saved sv by blast
    then show ?thesis using sess l1 by auto
  next
    case (Inl e)
    show ?thesis
    proof (cases e)
      case OfflineError
      then obtain bq where "persistInternal b = persistSession bq" "b_firestore bq = fs"
        using persistInternal_offline sv Inl by blast
      then show ?thesis using sess l1 by auto
    next
      case OtherError
      then show ?thesis using persistInternal_other sv Inl l1 by auto
    next
      case ConflictError
      then obtain bc where run: "persistInternal b =
            (case handleConflict (captured b) bc of
               (Inl err', b4) \<Rightarrow> (Inl err', b4)
             | (Inr u, b4) \<Rightarrow> persistSession b4)"
        and bc: "b_firestore bc = fs" "b_context bc = b_context b"
        using persistInternal_conflict sv Inl by blast
      obtain cs where cs: "saveLog (b_firestore (snd (handleConflict (captured b) bc)))
            = saveLog fs @ cs" "\<forall>c\<in>set cs. save_increases c"
        using handleConflict_log[of "captured b" bc] bc by auto
      obtain hr b4 where hc: "handleConflict (captured b) bc = (hr, b4)"
        by (cases "handleConflict (captured b) bc")
      have "saveLog (b_firestore (snd (persistInternal b))) = saveLog fs @ cs"
        using run hc cs(1) persistSession_props(3)[of b4]
        by (cases hr) (auto simp: prod_eq_iff)
      then show ?thesis using l1 cs(2) by auto
    qed
  qed
qed

lemma persistInternal_single:
  assumes "fst (firstSave b) \<noteq> Inl ConflictError"
  shows "\<exists>c. issued persistInternal b = [c] \<and> sc_snapshot c = captured b \<and>
             sc_expected c = Some (b_version b) \<and>
             sc_outcome c = (case fst (firstSave b) of Inl e \<Rightarrow> Some e | Inr p \<Rightarrow> None)"
proof -
  obtain r fs where sv: "firstSave b = (r, fs)" by (cases "firstSave b")
  obtain c where c: "saveLog fs = saveLog (b_firestore b) @ [c]" "sc_snapshot c = captured b"
      "sc_expected c = Some (b_version b)"
      "sc_outcome c = (case r of Inl e \<Rightarrow> Some e | Inr p \<Rightarrow> None)"
    using firstSave_log[OF sv] by blast
  have "b_firestore (snd (persistInternal b)) = fs \<or>
        (\<exists>bq. b_firestore bq = fs \<and> persistInternal b = persistSession bq)"
  proof (cases r)
    case (Inr p)
    then show ?thesis using persistInternal_saved sv by blast
  next
    case (Inl e)
    then show ?thesis
      using assms sv persistInternal_offline[of b fs] persistInternal_other[of b fs]
      by (cases e) auto
  qed
  then have "saveLog (b_firestore (snd (persistInternal b))) = saveLog (b_firestore b) @ [c]"
    using c(1) persistSession_props(3) by (metis prod.collapse)
  then have "issued persistInternal b = [c]" by (rule issued_append)
  then show ?thesis using c sv by simp
qed

lemma persistInternal_offline_outcome:
  assumes "fst (firstSave b) = Inl OfflineError"
  shows "fst (persistInternal b) = sessionOutcome 1 b"
proof -
  obtain fs where sv: "firstSave b = (Inl OfflineError, fs)"
    using assms by (cases "firstSave b") auto
  obtain bq where run: "persistInternal b = persistSession bq" and fs: "b_firestore bq = fs"
    using persistInternal_offline[OF sv] by blast
  obtain r b' where ps: "persistSession bq = (r, b')" by (cases "persistSession bq")
  have "incoming fs = drop 1 (incoming (b_firestore b))"
    using saveNotebook_props(1)[OF sv[unfolded firstSave_def]] by (simp add: drop_Suc)
  then have "r = sessionOutcome 1 b"
    using persistSession_props(8)[OF ps] fs by (simp add: sessionOutcome_def)
  then show ?thesis using run ps by simp
qed

lemma persistInternal_saved_cache:
  assumes "firstSave b = (Inr persisted, fs)"
  shows "cache_pending (b_cache (snd (persistInternal b))) = cache_pending (b_cache b)"
    and "b_context (snd (persistInternal b)) = b_context b"
proof -
  obtain bq where run: "persistInternal b = persistSession bq"
    and cache: "b_cache bq = writeNotebook persisted (writeNotebook (captured b) (b_cache b))"
    and ctx: "b_context bq = b_context b"
    using persistInternal_saved[OF assms] by blast
  obtain r b' where ps: "persistSession bq = (r, b')" by (cases "persistSession bq")
  show "cache_pending (b_cache (snd (persistInternal b))) = cache_pending (b_cache b)"
    using persistSession_props(2)[OF ps] run ps by (simp add: cache writeNotebook_def)
  show "b_context (snd (persistInternal b)) = b_context b"
    using persistSession_props(7)[OF ps] run ps ctx by simp
qed

lemma persistInternal_saved_quiet:
  assumes sv: "fst (firstSave b) = Inr persisted"
    and quiet: "incoming (b_firestore b) = []"
  shows "notebooks (b_firestore (snd (persistInternal b)))
           (key (ctx_userId (b_context b)) (ctx_notebookId (b_context b))) = Some (captured b)"
    and "incoming (b_firestore (snd (persistInternal b))) = []"
    and "b_version (snd (persistInternal b)) = js_add (b_version b) 1"
    and "b_context (snd (persistInternal b)) = b_context b"
    and "fst (persistInternal b) = Inr ()"
proof -
  obtain fs where sv': "firstSave b = (Inr persisted, fs)"
    using sv by (cases "firstSave b") auto
  obtain bq where run: "persistInternal b = persistSession bq"
    and bq: "b_firestore bq = fs" "b_version bq = version persisted" "b_context bq = b_context b"
    using persistInternal_saved[OF sv'] by blast
  have p: "persisted = captured b"
      "notebooks fs (key (userId (captured b)) (notebookId (captured b))) = Some (captured b)"
    using saveNotebook_props(3)[OF sv'[unfolded firstSave_def]] by simp_all
  have inc: "incoming fs = []"
    using saveNotebook_props(1)[OF sv'[unfolded firstSave_def]] quiet by simp
  then have q: "incoming (b_firestore bq) = []" using bq by simp
  show "notebooks (b_firestore (snd (persistInternal b)))
           (key (ctx_userId (b_context b)) (ctx_notebookId (b_context b))) = Some (captured b)"
    using persistSession_quiet(1)[OF q] run bq p by (simp add: captureSnapshot_props)
  show "incoming (b_firestore (snd (persistInternal b))) = []"
    using persistSession_quiet(2)[OF q] run by simp
  show "b_version (snd (persistInternal b)) = js_add (b_version b) 1"
    using persistSession_props(4)[of bq] run bq p
    by (metis captureSnapshot_props(3) prod.collapse)
  show "b_context (snd (persistInternal b)) = b_context b"
    using persistSession_props(7)[of bq] run bq by (metis prod.collapse)
  show "fst (persistInternal b) = Inr ()"
    using persistSession_quiet(3)[OF q] run by simp
qed

lemma persistInternal_conflict_state:
  assumes c: "fst (firstSave b) = Inl ConflictError"
    and f: "fst (fetched b) = Inr (Some remoteS)"
  shows "\<exists>b' c1 c2.
           persistInternal b =
             (case fst (retry b remoteS) of
                Inr p \<Rightarrow> persistSession b'
              | Inl e \<Rightarrow> if e = OfflineError then persistSession b' else (Inl e, b')) \<and>
           saveLog (b_firestore b') = saveLog (b_firestore b) @ [c1, c2] \<and>
           sc_snapshot c1 = captured b \<and> sc_expected c1 = Some (b_version b) \<and>
           sc_snapshot c2 = mergedWith b remoteS \<and> sc_expected c2 = Some (version remoteS) \<and>
           incoming (b_firestore b') = drop 3 (incoming (b_firestore b)) \<and>
           b_context b' = b_context b \<and>
           b_cache b' =
             (if fst (retry b remoteS) = Inl OfflineError
              then storePendingSnapshot (ctx_userId (b_context b)) (ctx_notebookId (b_context b))
                     ((mergedWith b remoteS)\<lparr>pending := Some True\<rparr>)
                     (writeNotebook (mergedWith b remoteS)
                        (writeNotebook (captured b) (b_cache b)))
              else writeNotebook (mergedWith b remoteS)
                     (writeNotebook (captured b) (b_cache b)))"
proof -
  let ?uid = "ctx_userId (b_context b)" and ?nid = "ctx_notebookId (b_context b)"
  let ?m = "mergedWith b remoteS"
  obtain fs1 where sv: "firstSave b = (Inl ConflictError, fs1)"
    using c by (cases "firstSave b") auto
  obtain fs2 where ft: "getNotebook ?uid ?nid fs1 = (Inr (Some remoteS), fs2)"
    using f sv by (cases "getNotebook ?uid ?nid fs1") (auto simp: fetched_def)
  obtain r fs3 where rt: "saveNotebook ?m (Some (version remoteS)) fs2 = (r, fs3)"
    by (cases "saveNotebook ?m (Some (version remoteS)) fs2")
  have rt': "fst (retry b remoteS) = r"
    using sv ft rt by (simp add: retry_def fetched_def)
  obtain bc where run: "persistInternal b =
        (case handleConflict (captured b) bc of
           (Inl err', b4) \<Rightarrow> (Inl err', b4)
         | (Inr u, b4) \<Rightarrow> persistSession b4)"
    and bc: "b_firestore bc = fs1" "b_cache bc = writeNotebook (captured b) (b_cache b)"
      "b_context bc = b_context b" "b_clock bc = b_clock b"
      "b_clockReads bc = Suc (b_clockReads b)"
    using persistInternal_conflict[OF sv] by blast
  have m: "fst (mergeSnapshots (captured b) remoteS bc) = ?m"
    unfolding mergedWith_def
    by (rule mergeSnapshots_cong) (simp_all add: bc captureSnapshot_props(5))
  obtain b' where hc: "handleConflict (captured b) bc =
        ((case r of Inr p \<Rightarrow> Inr () | Inl e \<Rightarrow> if e = OfflineError then Inr () else Inl e), b')"
    and b': "b_firestore b' = fs3"
      "b_cache b' = (if r = Inl OfflineError
                     then storePendingSnapshot ?uid ?nid (?m\<lparr>pending := Some True\<rparr>)
                            (writeNotebook ?m (b_cache bc))
                     else writeNotebook ?m (b_cache bc))"
      "b_context b' = b_context b"
    using handleConflict_merged[of bc remoteS fs2 "captured b" r fs3] ft rt
    by (auto simp: bc m)
  obtain c1 where l1: "saveLog fs1 = saveLog (b_firestore b) @ [c1]"
      "sc_snapshot c1 = captured b" "sc_expected c1 = Some (b_version b)"
    using firstSave_log[OF sv] by blast
  have l2: "saveLog fs2 = saveLog fs1" using getNotebook_props(1)[OF ft] .
  obtain c2 where l3: "saveLog fs3 = saveLog fs2 @ [c2]"
      "sc_snapshot c2 = ?m" "sc_expected c2 = Some (version remoteS)"
    using saveNotebook_log[OF rt] by blast
  have inc: "incoming fs3 = drop 3 (incoming (b_firestore b))"
    using saveNotebook_props(1)[OF sv[unfolded firstSave_def]] getNotebook_props(2)[OF ft]
      saveNotebook_props(1)[OF rt]
    by (simp add: drop_Suc tl_drop numeral_3_eq_3)
  have res: "persistInternal b =
             (case r of
                Inr p \<Rightarrow> persistSession b'
              | Inl e \<Rightarrow> if e = OfflineError then persistSession b' else (Inl e, b'))"
    using run hc by (cases r) auto
  show ?thesis
    apply (rule exI[of _ b'], rule exI[of _ c1], rule exI[of _ c2])
    using res rt' b' bc(2) l1 l2 l3 inc by simp
qed

lemma issued_persistInternal: "issued persistInternal b \<noteq> []"
  using persistInternal_log[of b] by (auto simp: issued_def)

lemma flush_ran:
  assumes "fst (flush inFlight b) = Inr ()"
  shows "flush inFlight b = persistInternal b"
  using assms by (auto simp: flush_def persistAfter_def split: option.splits sum.splits)

lemma issued_flush_ran:
  assumes "fst (flush inFlight b) = Inr ()"
  shows "issued (flush inFlight) b = issued persistInternal b"
  using flush_ran[OF assms] by (simp add: issued_def)

lemma issued_flush_chained: "issued (flush (Some (Inr ()))) b = issued persistInternal b"
  by (simp add: issued_def flush_chained)

lemma issued_flushTwice:
  assumes "fst (flush inFlight b) = Inr ()"
  shows "issued (flushTwice inFlight) b =
           issued (flush inFlight) b @ issued (flush (Some (Inr ()))) (snd (flush inFlight b))"
proof -
  obtain b1 where f1: "flush inFlight b = (Inr (), b1)"
    using assms by (cases "flush inFlight b") auto
  then have p1: "persistInternal b = (Inr (), b1)" using flush_ran[OF assms] by simp
  obtain cs where cs: "saveLog (b_firestore b1) = saveLog (b_firestore b) @ cs"
    using persistInternal_log[of b] p1 by auto
  obtain ds where ds: "saveLog (b_firestore (snd (flush (Some (Inr ())) b1)))
      = saveLog (b_firestore b1) @ ds"
    using persistInternal_log[of b1] by (auto simp: flush_chained)
  have 1: "issued (flush inFlight) b = cs" using cs f1 by (simp add: issued_def)
  have 2: "issued (flush (Some (Inr ()))) b1 = ds" using ds by (simp add: issued_def)
  have "issued (flushTwice inFlight) b = cs @ ds"
    using cs ds f1 by (simp add: issued_def flushTwice_def)
  then show ?thesis using 1 2 f1 by simp
qed

subsection \<open>Auxiliary facts: restore\<close>

lemma replayed_Nil: "replayed [] b b []"
  by (simp add: replayed_def)

lemma replayed_stop:
  assumes "saveLog fs = saveLog (b_firestore b) @ [c]"
    and "sc_snapshot c = p\<lparr>pending := None\<rparr>" and "sc_expected c = Some (js_sub (version p) 1)"
    and "sc_outcome c = Some OfflineError"
  shows "replayed (p # rest) b
           (b\<lparr>b_firestore := fs,
              b_cache := storePendingSnapshot (ctx_userId (b_context b))
                           (ctx_notebookId (b_context b)) p (b_cache b)\<rparr>) [c]"
  using assms by (simp add: replayed_def)

lemma replayed_step:
  assumes "saveLog fs = saveLog (b_firestore b) @ [c]"
    and "sc_snapshot c = p\<lparr>pending := None\<rparr>" and "sc_expected c = Some (js_sub (version p) 1)"
    and "sc_outcome c \<noteq> Some OfflineError"
    and "replayed rest (b\<lparr>b_firestore := fs\<rparr>) b' cs"
  shows "replayed (p # rest) b b' (c # cs)"
proof (cases "cs = []")
  case True
  then show ?thesis using assms by (simp add: replayed_def)
next
  case False
  then have "length cs - 1 < length cs" "(p # rest) ! length cs = rest ! (length cs - 1)"
    by (simp_all add: nth_Cons')
  then show ?thesis using assms False by (simp add: replayed_def)
qed

lemma replayPending_replayed: "\<exists>cs. replayed ps b (replayPending ps b) cs"
proof (induction ps arbitrary: b)
  case Nil
  show ?case using replayed_Nil by auto
next
  case (Cons p rest)
  obtain r fs where sv: "saveNotebook (p\<lparr>pending := None\<rparr>) (Some (js_sub (version p) 1)) (b_firestore b)
      = (r, fs)"
    by (cases "saveNotebook (p\<lparr>pending := None\<rparr>) (Some (js_sub (version p) 1)) (b_firestore b)")
  obtain c where c: "saveLog fs = saveLog (b_firestore b) @ [c]"
      "sc_snapshot c = p\<lparr>pending := None\<rparr>" "sc_expected c = Some (js_sub (version p) 1)"
      "sc_outcome c = (case r of Inl e \<Rightarrow> Some e | Inr x \<Rightarrow> None)"
    using saveNotebook_log[OF sv] by auto
  show ?case
  proof (cases "r = Inl OfflineError")
    case True
    have run: "replayPending (p # rest) b =
        b\<lparr>b_firestore := fs,
          b_cache := storePendingSnapshot (ctx_userId (b_context b))
                       (ctx_notebookId (b_context b)) p (b_cache b)\<rparr>"
      using sv True by simp
    have "sc_outcome c = Some OfflineError" using c(4) True by simp
    from replayed_stop[OF c(1,2,3) this] show ?thesis unfolding run by blast
  next
    case False
    have run: "replayPending (p # rest) b = replayPending rest (b\<lparr>b_firestore := fs\<rparr>)"
      using sv False by (cases r) auto
    have nc: "sc_outcome c \<noteq> Some OfflineError"
      using c(4) False by (cases r) auto
    obtain cs where "replayed rest (b\<lparr>b_firestore := fs\<rparr>)
        (replayPending rest (b\<lparr>b_firestore := fs\<rparr>)) cs"
      using Cons.IH by blast
    from replayed_step[OF c(1,2,3) nc this] show ?thesis unfolding run by blast
  qed
qed

lemma replayPending_log:
  "\<exists>cs. saveLog (b_firestore (replayPending ps b)) = saveLog (b_firestore b) @ cs \<and>
        (\<forall>c\<in>set cs. save_increases c)"
proof (induction ps arbitrary: b)
  case Nil
  then show ?case by simp
next
  case (Cons p rest)
  obtain r fs where sv: "saveNotebook (p\<lparr>pending := None\<rparr>) (Some (js_sub (version p) 1)) (b_firestore b)
      = (r, fs)"
    by (cases "saveNotebook (p\<lparr>pending := None\<rparr>) (Some (js_sub (version p) 1)) (b_firestore b)")
  have "\<bar>js_sub (version p) 1\<bar> < 9007199254740992
          \<longrightarrow> js_sub (version p) 1 < version (p\<lparr>pending := None\<rparr>)"
    using js_sub_one_decreases by simp
  then obtain c where c: "saveLog fs = saveLog (b_firestore b) @ [c]" "save_increases c"
    using saveNotebook_log[OF sv] by auto
  obtain cs where cs: "saveLog (b_firestore (replayPending rest (b\<lparr>b_firestore := fs\<rparr>)))
      = saveLog fs @ cs" "\<forall>c\<in>set cs. save_increases c"
    using Cons.IH[of "b\<lparr>b_firestore := fs\<rparr>"] by auto
  show ?case
  proof (cases "r = Inl OfflineError")
    case True
    then show ?thesis using sv c by auto
  next
    case False
    then have "replayPending (p # rest) b = replayPending rest (b\<lparr>b_firestore := fs\<rparr>)"
      using sv by (cases r) auto
    then show ?thesis using c cs by auto
  qed
qed

lemma replayPending_model: "b_model (replayPending ps b) = b_model b"
proof (induction ps arbitrary: b)
  case Nil
  show ?case by simp
next
  case (Cons p rest)
  show ?case
    using Cons.IH
    by (simp split: prod.splits sum.splits)
qed

lemma applySnapshot_stores:
  "b_cache (applySnapshot s b) = b_cache b"
  "b_firestore (applySnapshot s b) = b_firestore b"
  "b_context (applySnapshot s b) = b_context b"
  by (simp_all add: applySnapshot_def)

lemma performRestore_stores:
  assumes cp: "consumePendingSnapshots (ctx_userId (b_context b)) (b_cache b) = (ps, c1)"
    and gn: "getNotebook (ctx_userId (b_context b)) (ctx_notebookId (b_context b)) (b_firestore b)
           = (g, fs)"
  defines "b2 \<equiv> b\<lparr>b_cache := c1, b_firestore := fs\<rparr>"
  defines "b3 \<equiv> (if ps \<noteq> [] \<and> (\<exists>x. g = Inr (Some x)) then replayPending ps b2 else b2)"
  shows "b_cache (snd (performRestore b)) = b_cache b3 \<and>
         b_firestore (snd (performRestore b)) = b_firestore b3 \<and>
         b_context (snd (performRestore b)) = b_context b3"
proof (cases g)
  case (Inl e)
  then show ?thesis
    using cp gn
    by (cases "e = OfflineError")
       (simp_all add: performRestore_def Let_def b2_def b3_def applySnapshot_stores
        split: option.splits)
next
  case (Inr ro)
  then show ?thesis
    using cp gn
    by (cases ro)
       (simp_all add: performRestore_def Let_def b2_def b3_def applySnapshot_stores
        split: option.splits)
qed

lemma performRestore_log:
  "\<exists>cs. saveLog (b_firestore (snd (performRestore b))) = saveLog (b_firestore b) @ cs \<and>
        (\<forall>c\<in>set cs. save_increases c)"
proof -
  let ?uid = "ctx_userId (b_context b)" and ?nid = "ctx_notebookId (b_context b)"
  obtain ps c1 where cp: "consumePendingSnapshots ?uid (b_cache b) = (ps, c1)"
    by (cases "consumePendingSnapshots ?uid (b_cache b)")
  obtain g fs where gn: "getNotebook ?uid ?nid (b_firestore b) = (g, fs)"
    by (cases "getNotebook ?uid ?nid (b_firestore b)")
  let ?b2 = "b\<lparr>b_cache := c1, b_firestore := fs\<rparr>"
  have lg: "saveLog fs = saveLog (b_firestore b)" using getNotebook_props(1)[OF gn] .
  have st: "b_firestore (snd (performRestore b))
              = b_firestore (if ps \<noteq> [] \<and> (\<exists>x. g = Inr (Some x))
                             then replayPending ps ?b2 else ?b2)"
    using performRestore_stores[OF cp gn] by simp
  show ?thesis
  proof (cases "ps \<noteq> [] \<and> (\<exists>x. g = Inr (Some x))")
    case True
    then have "b_firestore (snd (performRestore b)) = b_firestore (replayPending ps ?b2)"
      using st by simp
    then show ?thesis using replayPending_log[of ps ?b2] lg by simp
  next
    case False
    then have "b_firestore (snd (performRestore b)) = b_firestore ?b2"
      using st by (simp only: if_False)
    then show ?thesis using lg by simp
  qed
qed

lemma performRestore_newer_cache:
  assumes cached: "readNotebook (ctx_userId (b_context b)) (ctx_notebookId (b_context b))
                     (snd (consumePendingSnapshots (ctx_userId (b_context b)) (b_cache b)))
                   = Some c"
    and remote: "fst (getNotebook (ctx_userId (b_context b)) (ctx_notebookId (b_context b))
                        (b_firestore b)) = Inr (Some r)"
    and newer: "updatedAt r < updatedAt c"
  shows "fst (performRestore b) = Inr \<lparr>appliedRemote = True, source = Remote\<rparr> \<and>
         b_lastSnapshot (snd (performRestore b)) = Some c \<and>
         b_version (snd (performRestore b)) = version c \<and>
         b_model (snd (performRestore b))
           = reset (map toCellDto (cells c)) (metadata c) (transientOptions c) (b_model b)"
proof -
  obtain ps c1 where cp: "consumePendingSnapshots (ctx_userId (b_context b)) (b_cache b) = (ps, c1)"
    by (cases "consumePendingSnapshots (ctx_userId (b_context b)) (b_cache b)")
  obtain fs where gn: "getNotebook (ctx_userId (b_context b)) (ctx_notebookId (b_context b))
                        (b_firestore b) = (Inr (Some r), fs)"
    using remote
    by (cases "getNotebook (ctx_userId (b_context b)) (ctx_notebookId (b_context b)) (b_firestore b)")
       auto
  have ch: "chooseSnapshot (Some r) (Some c) = Some c"
    using newer by (simp add: chooseSnapshot_def)
  show ?thesis
    using cached cp gn ch
    by (simp add: performRestore_def Let_def applySnapshot_def replayPending_model deepClone_def
        reset_def)
qed

subsection \<open>Auxiliary facts: merging cells\<close>

lemma map_of_foldl_map_set:
  "map_of (foldl (\<lambda>m (k, v). map_set k v m) m es) = map_of m ++ map_of (rev es)"
proof (induction es arbitrary: m)
  case Nil
  show ?case by simp
next
  case (Cons e es)
  obtain k v where e: "e = (k, v)" by (cases e)
  show ?case
    unfolding e
    by (simp add: Cons.IH map_of_map_set map_add_def fun_eq_iff split: option.splits)
qed

lemma newMap_lookup:
  assumes "distinct (map cell_id R)" and "b \<in> set R"
  shows "map_of (newMap (map (\<lambda>cell. (cell_id cell, cell)) R)) (cell_id b) = Some b"
proof -
  let ?es = "map (\<lambda>cell. (cell_id cell, cell)) R"
  have d: "distinct (map fst (rev ?es))"
    using assms(1) by (simp add: rev_map[symmetric] comp_def)
  have "(cell_id b, b) \<in> set (rev ?es)" using assms(2) by auto
  then have "map_of (rev ?es) (cell_id b) = Some b"
    using d by (simp only: map_of_eq_Some_iff)
  then show ?thesis by (simp add: newMap_def map_of_foldl_map_set)
qed

lemma newMap_ids:
  assumes "map_of (newMap (map (\<lambda>cell. (cell_id cell, cell)) R)) k = Some rc"
  shows "cell_id rc = k" and "rc \<in> set R"
proof -
  have "map_of (rev (map (\<lambda>cell. (cell_id cell, cell)) R)) k = Some rc"
    using assms by (simp add: newMap_def map_of_foldl_map_set)
  then have "(k, rc) \<in> set (rev (map (\<lambda>cell. (cell_id cell, cell)) R))"
    by (rule map_of_SomeD)
  then show "cell_id rc = k" and "rc \<in> set R" by auto
qed

lemma mergeCells_subset: "set (mergeCells L R) \<subseteq> set L \<union> set R"
  by (auto simp: mergeCells_def Let_def split: option.splits if_splits dest: newMap_ids(2))

lemma distinct_filter_same:
  "distinct (map f xs) \<Longrightarrow> a \<in> set xs \<Longrightarrow> filter (\<lambda>c. f c = f a) xs = [a]"
proof (induction xs)
  case Nil
  then show ?case by simp
next
  case (Cons x xs)
  show ?case
  proof (cases "x = a")
    case True
    have "f a \<notin> f ` set xs" using Cons.prems(1) True by simp
    then have "\<forall>c\<in>set xs. f c \<noteq> f a" by (metis imageI)
    then have "filter (\<lambda>c. f c = f a) xs = []" by (simp add: filter_empty_conv)
    then show ?thesis using True by simp
  next
    case False
    then have "a \<in> set xs" using Cons.prems(2) by simp
    moreover have "f x \<noteq> f a" using Cons.prems(1) \<open>a \<in> set xs\<close> by (auto simp: image_iff)
    ultimately show ?thesis using Cons by simp
  qed
qed

lemma mergeCells_same_id:
  assumes dl: "distinct (map cell_id L)" and dr: "distinct (map cell_id R)"
    and a: "a \<in> set L" and b: "b \<in> set R" and same: "cell_id a = cell_id b"
  shows "filter (\<lambda>c. cell_id c = cell_id a) (mergeCells L R)
           = [if lastModified a \<ge> lastModified b then a else b]"
proof -
  let ?rm = "newMap (map (\<lambda>cell. (cell_id cell, cell)) R)"
  let ?ch = "\<lambda>cell. case map_of ?rm (cell_id cell) of
                       None \<Rightarrow> cell
                     | Some remoteCell \<Rightarrow>
                         if lastModified cell \<ge> lastModified remoteCell then cell else remoteCell"
  have id: "\<And>c. cell_id (?ch c) = cell_id c"
    by (auto split: option.splits dest: newMap_ids(1))
  have ids: "map cell_id (map ?ch L) = map cell_id L"
    using id by (simp add: comp_def)
  have cha: "?ch a = (if lastModified a \<ge> lastModified b then a else b)"
    using newMap_lookup[OF dr b] same by simp
  have "filter (\<lambda>c. cell_id c = cell_id a) (map ?ch L)
          = map ?ch (filter (\<lambda>c. cell_id c = cell_id a) L)"
    by (simp add: filter_map comp_def id)
  also have "\<dots> = [?ch a]"
    using distinct_filter_same[OF dl a] by simp
  finally have 1: "filter (\<lambda>c. cell_id c = cell_id a) (map ?ch L)
          = [if lastModified a \<ge> lastModified b then a else b]"
    using cha by simp
  have "cell_id a \<in> set (map cell_id (map ?ch L))"
    unfolding ids using a by simp
  then have 2: "filter (\<lambda>c. cell_id c = cell_id a)
          (filter (\<lambda>cell. cell_id cell \<notin> set (map cell_id (map ?ch L))) R) = []"
    by (auto simp: filter_empty_conv)
  show ?thesis
    unfolding mergeCells_def Let_def filter_append 1 2 by simp
qed

subsection \<open>Auxiliary facts: the concrete inputs\<close>

lemma demo_simps:
  "b_context (demoBinding fs c) = demoContext"
  "b_firestore (demoBinding fs c) = fs"
  "b_cache (demoBinding fs c) = c"
  "b_version (demoBinding fs c) = 0"
  "b_didPersist (demoBinding fs c) = 0"
  "ctx_userId demoContext = ''u''"
  "ctx_notebookId demoContext = ''n''"
  "incoming (demoFirestore stored evs) = evs"
  "saveLog (demoFirestore stored evs) = []"
  "notebooks (demoFirestore stored evs) ''u::n'' = stored"
  "cache_notebooks (demoCache cached queued) ''u::n'' = cached"
  "cache_pending (demoCache cached queued) = (if queued = [] then [] else [(''u::n'', queued)])"
  "key ''u'' ''n'' = ''u::n''"
  by (simp_all add: demoBinding_def demoContext_def demoFirestore_def demoCache_def key_def
      split: option.splits)

lemma demoSnapshot_simps:
  "userId (demoSnapshot text v t) = ''u''"
  "notebookId (demoSnapshot text v t) = ''n''"
  "version (demoSnapshot text v t) = v"
  "updatedAt (demoSnapshot text v t) = t"
  by (simp_all add: demoSnapshot_def)

lemma demo_captured:
  "captured (demoBinding fs c) = demoSnapshot ''initial'' 1 2"
  by (simp add: captured_def captureSnapshot_def clock_def demoBinding_def demoContext_def
      demoModel_def demoSnapshot_def demoCell_def serializeCell_def TestNotebookCell_def
      resolveCellId_def emptyCellMetadata_def deepClone_def numberToString_def decimal.simps
      js_add_exact Let_def)

lemma demo_queue:
  "queue (demoBinding fs (demoCache cached queued)) = queued"
  by (simp add: queue_def pendingFor_def demo_simps)

lemma demo_consume:
  "queued \<noteq> [] \<Longrightarrow>
   consumePendingSnapshots ''u'' (demoCache cached queued)
     = (queued, (demoCache cached queued)\<lparr>cache_pending := []\<rparr>)"
  by (simp add: consumePendingSnapshots_def demoCache_def map_deepClone Let_def)

lemma demo_overwrite_log:
  "map (\<lambda>c. (sc_outcome c, sc_expected c, sc_prior c, sc_stored c, version (sc_snapshot c)))
     (issued (flush None) (demoBinding (demoFirestore (Some (demoSnapshot ''remote'' 0 1)) [])
        (demoCache None [])))
   = [(None, Some 0, Some 0, Some 1, 1)]"
  by (simp add: issued_def flush_None persistInternal_def captureSnapshot_def clock_def
      demoBinding_def demoContext_def demoModel_def demoFirestore_def demoCache_def
      demoSnapshot_def saveNotebook_def arrive_def mem_saveNotebook_def logged_def key_def
      writeNotebook_def persistSession_def saveSession_def writeSession_def deepClone_def
      deletePendingSnapshot_def js_add_exact Let_def)

lemma demo_stalled_log:
  "map (\<lambda>c. (sc_outcome c, sc_expected c, sc_prior c, sc_stored c, version (sc_snapshot c)))
     (issued (flush None)
        ((demoBinding (demoFirestore (Some (demoSnapshot ''remote'' 9007199254740992 1)) [])
            (demoCache None []))\<lparr>b_version := 9007199254740992\<rparr>))
   = [(None, Some 9007199254740992, Some 9007199254740992, Some 9007199254740992,
       9007199254740992)]"
  by (simp add: issued_def flush_None persistInternal_def captureSnapshot_def clock_def
      demoBinding_def demoContext_def demoModel_def demoFirestore_def demoCache_def
      demoSnapshot_def saveNotebook_def arrive_def mem_saveNotebook_def logged_def key_def
      writeNotebook_def persistSession_def saveSession_def writeSession_def deepClone_def
      deletePendingSnapshot_def js_add_stalls Let_def)

lemma demo_replay_log:
  "map sc_outcome
     (issued performRestore
        (demoBinding
           (demoFirestore (Some (demoSnapshot ''remote'' 0 1)) [Reachable, Reachable, Unreachable])
           (demoCache None [(demoSnapshot ''one'' 1 5)\<lparr>pending := Some True\<rparr>,
                            (demoSnapshot ''two'' 2 6)\<lparr>pending := Some True\<rparr>])))
   = [None, Some OfflineError]"
proof -
  let ?q = "[(demoSnapshot ''one'' 1 5)\<lparr>pending := Some True\<rparr>,
             (demoSnapshot ''two'' 2 6)\<lparr>pending := Some True\<rparr>]"
  let ?f = "demoFirestore (Some (demoSnapshot ''remote'' 0 1)) [Reachable, Reachable, Unreachable]"
  let ?b = "demoBinding ?f (demoCache None ?q)"
  have cp: "consumePendingSnapshots (ctx_userId (b_context ?b)) (b_cache ?b)
              = (?q, (demoCache None ?q)\<lparr>cache_pending := []\<rparr>)"
    by (simp add: demo_simps demo_consume)
  have gn: "getNotebook (ctx_userId (b_context ?b)) (ctx_notebookId (b_context ?b)) (b_firestore ?b)
              = (Inr (Some (demoSnapshot ''remote'' 0 1)), ?f\<lparr>incoming := [Reachable, Unreachable]\<rparr>)"
    by (simp add: demo_simps getNotebook_def arrive_def mem_getNotebook_def deepClone_def
        demoFirestore_def key_def)
  have "b_firestore (snd (performRestore ?b))
          = b_firestore (replayPending ?q
              (?b\<lparr>b_cache := (demoCache None ?q)\<lparr>cache_pending := []\<rparr>,
                   b_firestore := ?f\<lparr>incoming := [Reachable, Unreachable]\<rparr>\<rparr>))"
    using performRestore_stores[OF cp gn] by simp
  then show ?thesis
    by (simp add: issued_def demo_simps saveNotebook_def arrive_def mem_saveNotebook_def
        logged_def deepClone_def demoFirestore_def demoSnapshot_def key_def js_sub_exact Let_def)
qed

lemma demo_flush_twice:
  fixes b :: NotebookBinding
  defines "b \<equiv> demoBinding (demoFirestore None []) (demoCache None [])"
  shows "fst (flush None b) = Inr ()"
    and "fst (flushTwice None b) = Inr ()"
    and "map (\<lambda>c. (version (sc_snapshot c), sc_expected c, sc_outcome c))
           (issued (flushTwice None) b)
           = [(1, Some 0, None), (2, Some 1, None)]"
proof -
  let ?b1 = "snd (persistInternal b)"
  have s1: "fst (firstSave b) = Inr (captured b)"
    by (rule firstSave_fresh) (simp_all add: b_def demo_simps)
  have q: "incoming (b_firestore b) = []" by (simp add: b_def demo_simps)
  note r1 = persistInternal_saved_quiet[OF s1 q]
  have s2: "fst (firstSave ?b1) = Inr (captured ?b1)"
    by (rule firstSave_matching[where cur = "captured b"])
       (simp_all add: r1 captureSnapshot_props)
  note r2 = persistInternal_saved_quiet[OF s2 r1(2)]
  show f1: "fst (flush None b) = Inr ()" using r1(5) by (simp add: flush_None)
  then have ft: "flushTwice None b = persistInternal ?b1"
    by (cases "persistInternal b") (auto simp: flushTwice_def flush_None flush_chained)
  show "fst (flushTwice None b) = Inr ()" using r2(5) ft by simp
  obtain c1 where c1: "issued persistInternal b = [c1]" "sc_snapshot c1 = captured b"
      "sc_expected c1 = Some (b_version b)" "sc_outcome c1 = None"
    using persistInternal_single[of b] s1 by auto
  obtain c2 where c2: "issued persistInternal ?b1 = [c2]" "sc_snapshot c2 = captured ?b1"
      "sc_expected c2 = Some (b_version ?b1)" "sc_outcome c2 = None"
    using persistInternal_single[of ?b1] s2 by auto
  have "issued (flushTwice None) b = [c1, c2]"
    using issued_flushTwice[OF f1] c1(1) c2(1)
    by (simp add: issued_flush_chained flush_eq flush_None)
  then show "map (\<lambda>c. (version (sc_snapshot c), sc_expected c, sc_outcome c))
           (issued (flushTwice None) b)
           = [(1, Some 0, None), (2, Some 1, None)]"
    using c1 c2 r1(3) by (simp add: captureSnapshot_props b_def demo_simps js_add_exact)
qed

subsection \<open>Restore\<close>

text \<open>
  C1, as amended. During restore the pending snapshots drained for the user are replayed in
  the order drained, each with its \<open>pending\<close> flag cleared and with its own version minus
  one (\<open>pending.version - 1\<close>) as expected version. Only the last replay attempt can have failed with the offline
  condition: in that case that pending snapshot is re-queued unchanged, as the only entry
  of the pending queue of the binding's (user, document) pair, and no further pending
  snapshot is replayed. When no attempt failed offline, nothing is re-queued. When a remote
  snapshot of the document was fetched and no attempt failed offline, every drained
  snapshot was attempted; when none was fetched, no drained snapshot is replayed.
\<close>

theorem restore_replay_stops_when_offline:
  fixes b :: NotebookBinding
  defines "ps \<equiv> fst (consumePendingSnapshots (ctx_userId (b_context b)) (b_cache b))"
  defines "cs \<equiv> issued performRestore b"
  defines "b' \<equiv> snd (performRestore b)"
  shows "length cs \<le> length ps \<and>
         map sc_snapshot cs = map (\<lambda>p. p\<lparr>pending := None\<rparr>) (take (length cs) ps) \<and>
         map sc_expected cs = map (\<lambda>p. Some (js_sub (version p) 1)) (take (length cs) ps) \<and>
         Some OfflineError \<notin> set (map sc_outcome (butlast cs)) \<and>
         (cs \<noteq> [] \<and> sc_outcome (last cs) = Some OfflineError \<longrightarrow>
            queue b' = [ps ! (length cs - 1)]) \<and>
         (\<not> (cs \<noteq> [] \<and> sc_outcome (last cs) = Some OfflineError) \<longrightarrow>
            queue b' = [] \<and>
            ((\<exists>x. fst (getNotebook (ctx_userId (b_context b)) (ctx_notebookId (b_context b))
                         (b_firestore b)) = Inr (Some x)) \<longrightarrow> length cs = length ps)) \<and>
         ((\<forall>x. fst (getNotebook (ctx_userId (b_context b)) (ctx_notebookId (b_context b))
                        (b_firestore b)) \<noteq> Inr (Some x)) \<longrightarrow> cs = [])"
proof -
  let ?uid = "ctx_userId (b_context b)" and ?nid = "ctx_notebookId (b_context b)"
  obtain c1 where cp: "consumePendingSnapshots ?uid (b_cache b) = (ps, c1)"
    unfolding ps_def by (cases "consumePendingSnapshots ?uid (b_cache b)") auto
  obtain g fs where gn: "getNotebook ?uid ?nid (b_firestore b) = (g, fs)"
    by (cases "getNotebook ?uid ?nid (b_firestore b)")
  let ?b2 = "b\<lparr>b_cache := c1, b_firestore := fs\<rparr>"
  let ?b3 = "if ps \<noteq> [] \<and> (\<exists>x. g = Inr (Some x)) then replayPending ps ?b2 else ?b2"
  have st: "b_cache b' = b_cache ?b3" "b_firestore b' = b_firestore ?b3"
      "b_context b' = b_context ?b3"
    using performRestore_stores[OF cp gn] unfolding b'_def by simp_all
  have lg: "saveLog fs = saveLog (b_firestore b)" using getNotebook_props(1)[OF gn] .
  have q1: "pendingFor ?uid ?nid c1 = []"
    using consume_empties_queue[of ?uid ?nid "b_cache b"] cp by simp
  show ?thesis
  proof (cases "ps \<noteq> [] \<and> (\<exists>x. g = Inr (Some x))")
    case True
    obtain ds where ds: "replayed ps ?b2 (replayPending ps ?b2) ds"
      using replayPending_replayed by blast
    have b3: "?b3 = replayPending ps ?b2" using True by simp
    have "saveLog (b_firestore (snd (performRestore b))) = saveLog (b_firestore b) @ ds"
      using ds st(2) lg unfolding b3 b'_def by (simp add: replayed_def)
    then have cs: "cs = ds" unfolding cs_def by (rule issued_append)
    have ctx: "b_context b' = b_context b"
      using ds st(3) unfolding b3 by (simp add: replayed_def)
    have off: "ds \<noteq> [] \<and> sc_outcome (last ds) = Some OfflineError \<Longrightarrow>
               queue b' = [ps ! (length ds - 1)]"
      using ds st(1) unfolding b3 by (simp add: replayed_def queue_def ctx pendingFor_store q1)
    have noff: "\<not> (ds \<noteq> [] \<and> sc_outcome (last ds) = Some OfflineError) \<Longrightarrow>
               queue b' = [] \<and> length ds = length ps"
      using ds st(1) unfolding b3 by (auto simp: replayed_def queue_def ctx q1)
    have "\<exists>x. fst (getNotebook ?uid ?nid (b_firestore b)) = Inr (Some x)"
      using True gn by auto
    then show ?thesis
      unfolding cs using ds off noff by (auto simp: replayed_def)
  next
    case False
    then have b3: "?b3 = ?b2" by (simp only: if_False)
    have "saveLog (b_firestore (snd (performRestore b))) = saveLog (b_firestore b) @ []"
      using st(2) lg unfolding b3 b'_def by simp
    then have cs: "cs = []" unfolding cs_def by (rule issued_append)
    have "queue b' = []"
      using st(1,3) unfolding b3 by (simp add: queue_def q1)
    then show ?thesis using cs False gn by auto
  qed
qed

theorem restore_replay_stops_when_offline_witness:
  "map sc_outcome
     (issued performRestore
        (demoBinding
           (demoFirestore (Some (demoSnapshot ''remote'' 0 1)) [Reachable, Reachable, Unreachable])
           (demoCache None [(demoSnapshot ''one'' 1 5)\<lparr>pending := Some True\<rparr>,
                            (demoSnapshot ''two'' 2 6)\<lparr>pending := Some True\<rparr>])))
     = [None, Some OfflineError] \<and>
   queue (snd (performRestore
        (demoBinding
           (demoFirestore (Some (demoSnapshot ''remote'' 0 1)) [Reachable, Reachable, Unreachable])
           (demoCache None [(demoSnapshot ''one'' 1 5)\<lparr>pending := Some True\<rparr>,
                            (demoSnapshot ''two'' 2 6)\<lparr>pending := Some True\<rparr>]))))
     = [(demoSnapshot ''two'' 2 6)\<lparr>pending := Some True\<rparr>]"
proof -
  let ?q = "[(demoSnapshot ''one'' 1 5)\<lparr>pending := Some True\<rparr>,
             (demoSnapshot ''two'' 2 6)\<lparr>pending := Some True\<rparr>]"
  let ?b = "demoBinding
           (demoFirestore (Some (demoSnapshot ''remote'' 0 1)) [Reachable, Reachable, Unreachable])
           (demoCache None ?q)"
  have ps: "fst (consumePendingSnapshots (ctx_userId (b_context ?b)) (b_cache ?b)) = ?q"
    by (simp add: demo_simps demo_consume)
  obtain c1 c2 where cs: "issued performRestore ?b = [c1, c2]" "sc_outcome c2 = Some OfflineError"
    using demo_replay_log by auto
  show ?thesis
    using restore_replay_stops_when_offline[of ?b] demo_replay_log
    unfolding ps cs by (simp add: cs(2))
qed

text \<open>The claim as stated fails: with no document in the remote store, a drained pending
  snapshot is neither replayed nor re-queued.\<close>

theorem restore_can_drop_pending:
  "fst (consumePendingSnapshots ''u''
          (b_cache (demoBinding (demoFirestore None [])
             (demoCache None [(demoSnapshot ''one'' 1 5)\<lparr>pending := Some True\<rparr>]))))
     = [(demoSnapshot ''one'' 1 5)\<lparr>pending := Some True\<rparr>] \<and>
   issued performRestore
     (demoBinding (demoFirestore None [])
        (demoCache None [(demoSnapshot ''one'' 1 5)\<lparr>pending := Some True\<rparr>])) = [] \<and>
   notebooks (b_firestore (snd (performRestore
     (demoBinding (demoFirestore None [])
        (demoCache None [(demoSnapshot ''one'' 1 5)\<lparr>pending := Some True\<rparr>]))))) ''u::n'' = None \<and>
   cache_pending (b_cache (snd (performRestore
     (demoBinding (demoFirestore None [])
        (demoCache None [(demoSnapshot ''one'' 1 5)\<lparr>pending := Some True\<rparr>]))))) = []"
proof -
  let ?q = "[(demoSnapshot ''one'' 1 5)\<lparr>pending := Some True\<rparr>]"
  let ?b = "demoBinding (demoFirestore None []) (demoCache None ?q)"
  have cp: "consumePendingSnapshots (ctx_userId (b_context ?b)) (b_cache ?b)
              = (?q, (demoCache None ?q)\<lparr>cache_pending := []\<rparr>)"
    by (simp add: demo_simps demo_consume)
  have gn: "getNotebook (ctx_userId (b_context ?b)) (ctx_notebookId (b_context ?b)) (b_firestore ?b)
              = (Inr None, demoFirestore None [])"
    by (simp add: demo_simps getNotebook_def arrive_def mem_getNotebook_def demoFirestore_def
        key_def)
  have st: "b_cache (snd (performRestore ?b)) = (demoCache None ?q)\<lparr>cache_pending := []\<rparr>"
      "b_firestore (snd (performRestore ?b)) = demoFirestore None []"
    using performRestore_stores[OF cp gn] by simp_all
  show ?thesis
    using cp by (simp add: st issued_def demo_simps)
qed

subsection \<open>The save protocol\<close>

text \<open>
  C2, as amended. When the first remote save of a scheduled write fails with a Conflict,
  the binding fetches the current remote snapshot; when the fetch returns one, it merges,
  writes the merged snapshot to the local cache and submits it with the fetched snapshot's
  version as expected version, and these two are the only saves of the write. If the retry
  succeeds the write goes on to the session write. If the retry fails with the offline
  condition the merged snapshot is queued pending with \<open>pending = true\<close>, no offline error is
  raised and the write goes on to the session write. If the retry fails in any other way,
  a second Conflict included, that error is raised to the caller of \<open>flush()\<close>.
\<close>

theorem conflict_is_merged_and_retried:
  assumes "fst (firstSave b) = Inl ConflictError"
    and "fst (fetched b) = Inr (Some remoteS)"
  shows "map sc_snapshot (issued (flush None) b) = [captured b, mergedWith b remoteS] \<and>
         map sc_expected (issued (flush None) b) = [Some (b_version b), Some (version remoteS)] \<and>
         readNotebook (ctx_userId (b_context b)) (ctx_notebookId (b_context b))
           (b_cache (snd (flush None b))) = Some (mergedWith b remoteS) \<and>
         (case fst (retry b remoteS) of
            Inr p \<Rightarrow> fst (flush None b) = sessionOutcome 3 b \<and> queue (snd (flush None b)) = queue b
          | Inl e \<Rightarrow>
              if e = OfflineError
              then fst (flush None b) = sessionOutcome 3 b \<and>
                   queue (snd (flush None b))
                     = queue b @ [(mergedWith b remoteS)\<lparr>pending := Some True\<rparr>]
              else fst (flush None b) = Inl e)"
proof -
  let ?uid = "ctx_userId (b_context b)" and ?nid = "ctx_notebookId (b_context b)"
  let ?m = "mergedWith b remoteS" and ?r = "fst (retry b remoteS)"
  obtain b' c1 c2 where run: "persistInternal b =
             (case ?r of
                Inr p \<Rightarrow> persistSession b'
              | Inl e \<Rightarrow> if e = OfflineError then persistSession b' else (Inl e, b'))"
    and lg: "saveLog (b_firestore b') = saveLog (b_firestore b) @ [c1, c2]"
    and cs: "sc_snapshot c1 = captured b" "sc_expected c1 = Some (b_version b)"
      "sc_snapshot c2 = ?m" "sc_expected c2 = Some (version remoteS)"
    and inc: "incoming (b_firestore b') = drop 3 (incoming (b_firestore b))"
    and ctx: "b_context b' = b_context b"
    and cache: "b_cache b' =
             (if ?r = Inl OfflineError
              then storePendingSnapshot ?uid ?nid (?m\<lparr>pending := Some True\<rparr>)
                     (writeNotebook ?m (writeNotebook (captured b) (b_cache b)))
              else writeNotebook ?m (writeNotebook (captured b) (b_cache b)))"
    using persistInternal_conflict_state[OF assms] by blast
  have rd': "readNotebook ?uid ?nid (b_cache b') = Some ?m"
    by (auto simp: cache readNotebook_def writeNotebook_def storePendingSnapshot_def Let_def
        deepClone_def mergedWith_props)
  have q': "queue b' = (if ?r = Inl OfflineError
                        then queue b @ [?m\<lparr>pending := Some True\<rparr>] else queue b)"
    by (simp add: queue_def cache ctx pendingFor_store pendingFor_writeNotebook)
  show ?thesis
  proof (cases "\<exists>e. ?r = Inl e \<and> e \<noteq> OfflineError")
    case True
    then obtain e where e: "?r = Inl e" "e \<noteq> OfflineError" by blast
    have res: "persistInternal b = (Inl e, b')" using run e by simp
    have "saveLog (b_firestore (snd (persistInternal b))) = saveLog (b_firestore b) @ [c1, c2]"
      using res lg by simp
    then have "issued persistInternal b = [c1, c2]" by (rule issued_append)
    then show ?thesis unfolding flush_eq using res rd' cs e by simp
  next
    case False
    then have res: "persistInternal b = persistSession b'"
      using run by (cases ?r) auto
    obtain r2 b2 where ps: "persistSession b' = (r2, b2)" by (cases "persistSession b'")
    have "saveLog (b_firestore (snd (persistInternal b))) = saveLog (b_firestore b) @ [c1, c2]"
      using res ps lg persistSession_props(3)[OF ps] by simp
    then have iss: "issued persistInternal b = [c1, c2]" by (rule issued_append)
    have r2: "r2 = sessionOutcome 3 b"
      using persistSession_props(8)[OF ps] inc by (simp add: sessionOutcome_def)
    have rd2: "readNotebook ?uid ?nid (b_cache b2) = Some ?m"
      using rd' persistSession_props(1)[OF ps] by (simp add: readNotebook_def)
    have q2: "queue b2 = queue b'"
      using persistSession_props(2,7)[OF ps] by (simp add: queue_def pendingFor_def)
    show ?thesis
      unfolding flush_eq using False res ps iss r2 rd2 q2 q' cs by (cases ?r) auto
  qed
qed

theorem conflict_is_merged_and_retried_witness:
  "fst (firstSave (demoBinding
          (demoFirestore (Some (demoSnapshot ''remote'' 5 1)) [Reachable, Reachable, Unreachable])
          (demoCache None []))) = Inl ConflictError \<and>
   fst (fetched (demoBinding
          (demoFirestore (Some (demoSnapshot ''remote'' 5 1)) [Reachable, Reachable, Unreachable])
          (demoCache None []))) = Inr (Some (demoSnapshot ''remote'' 5 1)) \<and>
   map sc_expected (issued (flush None) (demoBinding
          (demoFirestore (Some (demoSnapshot ''remote'' 5 1)) [Reachable, Reachable, Unreachable])
          (demoCache None []))) = [Some 0, Some 5] \<and>
   fst (flush None (demoBinding
          (demoFirestore (Some (demoSnapshot ''remote'' 5 1)) [Reachable, Reachable, Unreachable])
          (demoCache None []))) = Inr () \<and>
   map (\<lambda>s. (version s, pending s)) (queue (snd (flush None (demoBinding
          (demoFirestore (Some (demoSnapshot ''remote'' 5 1)) [Reachable, Reachable, Unreachable])
          (demoCache None []))))) = [(6, Some True)]"
proof -
  let ?r = "demoSnapshot ''remote'' 5 1"
  let ?b = "demoBinding (demoFirestore (Some ?r) [Reachable, Reachable, Unreachable])
              (demoCache None [])"
  have c: "fst (firstSave ?b) = Inl ConflictError"
    and i1: "incoming (snd (firstSave ?b)) = [Reachable, Unreachable]"
    and n1: "notebooks (snd (firstSave ?b)) ''u::n'' = Some ?r"
    using firstSave_conflict_eval[of ?b "[Reachable, Unreachable]" ?r]
    by (simp_all add: demo_simps demoSnapshot_simps)
  have f: "fst (fetched ?b) = Inr (Some ?r)"
    and i2: "incoming (snd (fetched ?b)) = [Unreachable]"
    using getNotebook_eval[OF i1, of "''u''" "''n''"] n1
    by (simp_all add: fetched_def demo_simps)
  have rt: "fst (retry ?b ?r) = Inl OfflineError"
    using saveNotebook_props(4)[of "mergedWith ?b ?r" "Some (version ?r)" "snd (fetched ?b)"
        "fst (retry ?b ?r)" "snd (retry ?b ?r)"] i2
    by (simp add: retry_def)
  show ?thesis
    using c f conflict_is_merged_and_retried[OF c f] rt
    by (simp add: demo_simps demoSnapshot_simps demo_queue mergedWith_props sessionOutcome_def
        js_add_exact)
qed

text \<open>The claim as stated fails: another client writes version 9 between the fetch and the
  retry, the retry is rejected, and \<open>flush()\<close> raises the Conflict.\<close>

theorem conflict_can_surface:
  "fst (firstSave (demoBinding
          (demoFirestore (Some (demoSnapshot ''remote'' 5 1))
             [Reachable, Reachable, ExternalWrite (demoSnapshot ''other'' 9 4)])
          (demoCache None []))) = Inl ConflictError \<and>
   fst (flush None (demoBinding
          (demoFirestore (Some (demoSnapshot ''remote'' 5 1))
             [Reachable, Reachable, ExternalWrite (demoSnapshot ''other'' 9 4)])
          (demoCache None []))) = Inl ConflictError"
proof -
  let ?r = "demoSnapshot ''remote'' 5 1" and ?w = "demoSnapshot ''other'' 9 4"
  let ?b = "demoBinding (demoFirestore (Some ?r) [Reachable, Reachable, ExternalWrite ?w])
              (demoCache None [])"
  have c: "fst (firstSave ?b) = Inl ConflictError"
    and i1: "incoming (snd (firstSave ?b)) = [Reachable, ExternalWrite ?w]"
    and n1: "notebooks (snd (firstSave ?b)) ''u::n'' = Some ?r"
    using firstSave_conflict_eval[of ?b "[Reachable, ExternalWrite ?w]" ?r]
    by (simp_all add: demo_simps demoSnapshot_simps)
  have f: "fst (fetched ?b) = Inr (Some ?r)"
    and i2: "incoming (snd (fetched ?b)) = [ExternalWrite ?w]"
    using getNotebook_eval[OF i1, of "''u''" "''n''"] n1
    by (simp_all add: fetched_def demo_simps)
  have rt: "fst (retry ?b ?r) = Inl ConflictError"
    unfolding retry_def
    by (rule saveNotebook_overtaken[OF i2])
       (simp_all add: demoSnapshot_simps mergedWith_props demo_simps)
  obtain b' where "persistInternal ?b =
        (case fst (retry ?b ?r) of
           Inr p \<Rightarrow> persistSession b'
         | Inl e \<Rightarrow> if e = OfflineError then persistSession b' else (Inl e, b'))"
    using persistInternal_conflict_state[OF c f] by blast
  then have "fst (flush None ?b) = Inl ConflictError"
    using rt by (simp add: flush_None)
  then show ?thesis using c by simp
qed

text \<open>
  C3, as amended. When the first remote save of a scheduled write succeeds, the binding
  sets its version tracker to the persisted version (\<open>this.version + 1\<close>), records the
  persisted snapshot as last known, re-writes it into the local cache, fires the persisted
  notification once, and leaves the pending queues of the local cache as they were: the
  only discard it makes is the call of the remote client's \<open>deletePendingSnapshot\<close> hook,
  which does nothing, and the cache has no operation that removes the pending snapshots of
  one document.
\<close>

theorem successful_save_effects:
  assumes "firstSave b = (Inr persisted, fs)"
  shows "persisted = captured b \<and>
         b_version (snd (persistInternal b)) = version persisted \<and>
         version persisted = js_add (b_version b) 1 \<and>
         b_lastSnapshot (snd (persistInternal b)) = Some persisted \<and>
         readNotebook (ctx_userId (b_context b)) (ctx_notebookId (b_context b))
           (b_cache (snd (persistInternal b))) = Some persisted \<and>
         b_didPersist (snd (persistInternal b)) = Suc (b_didPersist b) \<and>
         cache_pending (b_cache (snd (persistInternal b))) = cache_pending (b_cache b)"
proof -
  obtain bq where run: "persistInternal b = persistSession bq"
    and v: "b_version bq = version persisted" and l: "b_lastSnapshot bq = Some persisted"
    and cache: "b_cache bq = writeNotebook persisted (writeNotebook (captured b) (b_cache b))"
    and d: "b_didPersist bq = Suc (b_didPersist b)" and ctx: "b_context bq = b_context b"
    using persistInternal_saved[OF assms] by blast
  obtain r b' where ps: "persistSession bq = (r, b')" by (cases "persistSession bq")
  have p: "persisted = captured b"
    using saveNotebook_props(3)[OF assms[unfolded firstSave_def]] by simp
  have rd: "readNotebook (ctx_userId (b_context b)) (ctx_notebookId (b_context b)) (b_cache b')
              = Some persisted"
    using persistSession_props(1)[OF ps]
    by (simp add: readNotebook_def cache writeNotebook_def deepClone_def p captureSnapshot_props)
  have pq: "cache_pending (b_cache b') = cache_pending (b_cache b)"
    using persistSession_props(2)[OF ps] by (simp add: cache writeNotebook_def)
  show ?thesis
    using run ps p rd pq v l d persistSession_props(4,5,6)[OF ps]
    by (simp add: captureSnapshot_props(3))
qed

theorem successful_save_effects_witness:
  "fst (firstSave (demoBinding (demoFirestore None []) (demoCache None [])))
     = Inr (demoSnapshot ''initial'' 1 2) \<and>
   b_version (snd (persistInternal (demoBinding (demoFirestore None []) (demoCache None [])))) = 1 \<and>
   readNotebook ''u'' ''n''
     (b_cache (snd (persistInternal (demoBinding (demoFirestore None []) (demoCache None [])))))
     = Some (demoSnapshot ''initial'' 1 2) \<and>
   b_didPersist (snd (persistInternal (demoBinding (demoFirestore None []) (demoCache None []))))
     = 1"
proof -
  let ?b = "demoBinding (demoFirestore None []) (demoCache None [])"
  have ok: "fst (firstSave ?b) = Inr (captured ?b)"
    by (rule firstSave_fresh) (simp_all add: demo_simps)
  then obtain fs where sv: "firstSave ?b = (Inr (captured ?b), fs)"
    by (cases "firstSave ?b") auto
  show ?thesis
    using ok successful_save_effects[OF sv]
    by (simp add: demo_simps demo_captured demoSnapshot_def)
qed

text \<open>The claim as stated fails: a snapshot queued by an earlier offline write is still in
  the pending queue after a save that succeeded.\<close>

theorem successful_save_keeps_pending:
  "fst (firstSave (demoBinding (demoFirestore None [])
          (demoCache None [(demoSnapshot ''initial'' 1 2)\<lparr>pending := Some True\<rparr>])))
     = Inr (demoSnapshot ''initial'' 1 2) \<and>
   queue (snd (flush None (demoBinding (demoFirestore None [])
          (demoCache None [(demoSnapshot ''initial'' 1 2)\<lparr>pending := Some True\<rparr>]))))
     = [(demoSnapshot ''initial'' 1 2)\<lparr>pending := Some True\<rparr>]"
proof -
  let ?q = "[(demoSnapshot ''initial'' 1 2)\<lparr>pending := Some True\<rparr>]"
  let ?b = "demoBinding (demoFirestore None []) (demoCache None ?q)"
  have ok: "fst (firstSave ?b) = Inr (captured ?b)"
    by (rule firstSave_fresh) (simp_all add: demo_simps)
  then obtain fs where sv: "firstSave ?b = (Inr (captured ?b), fs)"
    by (cases "firstSave ?b") auto
  have "queue (snd (flush None ?b)) = queue ?b"
    using persistInternal_saved_cache[OF sv]
    by (simp add: queue_def flush_None pendingFor_def)
  then show ?thesis
    using ok by (simp add: demo_queue demo_captured)
qed

subsection \<open>Versions in the remote store\<close>

text \<open>
  C4, as amended. In a scheduled write that no other write of the binding overlaps, and in
  restore, every \<open>saveNotebook\<close> call of the engine that succeeds leaves the version it
  submitted in the store; and when the call names an expected version (the direct save, the
  conflict-merge retry, each pending replay) and finds a stored document whose version is
  below \<open>2^53\<close> in magnitude, the version it submits, and so the version stored afterwards, is
  strictly larger than the version stored before. The save \<open>handleConflict\<close> makes for a
  remote that vanished names no expected version; nothing is claimed about the version it
  overwrites (see \<open>vanished_remote_save_can_lower_version\<close> below).
\<close>

theorem engine_saves_increase_version:
  "\<forall>c \<in> set (issued (flush None) b) \<union> set (issued performRestore b). save_increases c"
proof -
  obtain cs where l: "saveLog (b_firestore (snd (persistInternal b))) = saveLog (b_firestore b) @ cs"
    and cs: "\<forall>c\<in>set cs. save_increases c"
    using persistInternal_log by blast
  have 1: "issued (flush None) b = cs" unfolding flush_eq using l by (rule issued_append)
  obtain cs' where l': "saveLog (b_firestore (snd (performRestore b))) = saveLog (b_firestore b) @ cs'"
    and cs': "\<forall>c\<in>set cs'. save_increases c"
    using performRestore_log by blast
  have 2: "issued performRestore b = cs'" using l' by (rule issued_append)
  show ?thesis using 1 2 cs cs' by auto
qed

theorem engine_saves_increase_version_witness:
  "hd (issued (flush None) (demoBinding (demoFirestore (Some (demoSnapshot ''remote'' 0 1)) [])
         (demoCache None [])))
     \<in> set (issued (flush None) (demoBinding (demoFirestore (Some (demoSnapshot ''remote'' 0 1)) [])
         (demoCache None []))) \<and>
   sc_outcome (hd (issued (flush None)
         (demoBinding (demoFirestore (Some (demoSnapshot ''remote'' 0 1)) [])
         (demoCache None [])))) = None \<and>
   sc_expected (hd (issued (flush None)
         (demoBinding (demoFirestore (Some (demoSnapshot ''remote'' 0 1)) [])
         (demoCache None [])))) = Some 0 \<and>
   sc_prior (hd (issued (flush None)
         (demoBinding (demoFirestore (Some (demoSnapshot ''remote'' 0 1)) [])
         (demoCache None [])))) = Some 0 \<and>
   \<bar>0 :: int\<bar> < 9007199254740992 \<and>
   sc_stored (hd (issued (flush None)
         (demoBinding (demoFirestore (Some (demoSnapshot ''remote'' 0 1)) [])
         (demoCache None []))))
     = Some (version (sc_snapshot (hd (issued (flush None)
         (demoBinding (demoFirestore (Some (demoSnapshot ''remote'' 0 1)) [])
         (demoCache None [])))))) \<and>
   0 < version (sc_snapshot (hd (issued (flush None)
         (demoBinding (demoFirestore (Some (demoSnapshot ''remote'' 0 1)) [])
         (demoCache None [])))))"
proof -
  let ?b = "demoBinding (demoFirestore (Some (demoSnapshot ''remote'' 0 1)) []) (demoCache None [])"
  obtain c where c: "issued (flush None) ?b = [c]" "sc_outcome c = None"
      "sc_expected c = Some 0" "sc_prior c = Some 0"
    using demo_overwrite_log by auto
  have "save_increases c"
    using engine_saves_increase_version[of ?b] c(1) by simp
  then show ?thesis using c by (simp add: save_increases_def)
qed

text \<open>The claim as stated fails at version \<open>2^53\<close>, where \<open>this.version + 1\<close> is \<open>2^53\<close> again.
  A binding at that version (as after restoring a notebook stored at it) submits \<open>2^53\<close> with
  expected version \<open>2^53\<close>; the store holds \<open>2^53\<close>, accepts the save, and holds \<open>2^53\<close>
  afterwards: the version written equals the one stored before.\<close>

theorem save_can_keep_version:
  "map (\<lambda>c. (sc_outcome c, sc_expected c, sc_prior c, sc_stored c, version (sc_snapshot c)))
     (issued (flush None)
        ((demoBinding (demoFirestore (Some (demoSnapshot ''remote'' 9007199254740992 1)) [])
            (demoCache None []))\<lparr>b_version := 9007199254740992\<rparr>))
   = [(None, Some 9007199254740992, Some 9007199254740992, Some 9007199254740992,
       9007199254740992)]"
  by (rule demo_stalled_log)

text \<open>The save for a vanished remote: the first save meets version 5 and is rejected, the
  document is removed before the fetch, and another client stores version 9 before the
  resubmission is served. The resubmission names no expected version and replaces
  version 9 by version 1.\<close>

lemma vanished_remote_save_can_lower_version:
  "map (\<lambda>c. (sc_outcome c, sc_expected c, sc_prior c, sc_stored c, version (sc_snapshot c)))
     (issued (flush None)
        (demoBinding
           (demoFirestore (Some (demoSnapshot ''remote'' 5 1))
              [Reachable, ExternalRemove ''u'' ''n'', ExternalWrite (demoSnapshot ''other'' 9 7)])
           (demoCache None [])))
   = [(Some ConflictError, Some 0, Some 5, Some 5, 1), (None, None, Some 9, Some 1, 1)]"
  by (simp add: issued_def flush_None persistInternal_def handleConflict_def
      captureSnapshot_def clock_def getNotebook_def mem_getNotebook_def
      demoBinding_def demoContext_def demoModel_def demoFirestore_def demoCache_def
      demoSnapshot_def saveNotebook_def arrive_def mem_saveNotebook_def logged_def key_def
      writeNotebook_def persistSession_def saveSession_def writeSession_def deepClone_def
      deletePendingSnapshot_def js_add_exact Let_def)

subsection \<open>The source reported by restore\<close>

text \<open>
  C5. A restore where the cached snapshot and the remote snapshot both exist and the cached
  one has the strictly larger \<open>updatedAt\<close>: the cached snapshot is applied to the document
  model, and the restoration result reports \<open>source = 'remote'\<close> and \<open>appliedRemote = true\<close>,
  since \<open>performRestore\<close> derives both from the presence of a remote snapshot and not from
  the snapshot \<open>chooseSnapshot\<close> returned.
\<close>

theorem restore_newer_cache_reports_remote:
  "fst (performRestore
          (demoBinding (demoFirestore (Some (demoSnapshot ''remote'' 1 3)) [])
             (demoCache (Some (demoSnapshot ''cached'' 1 9)) [])))
     = Inr \<lparr>appliedRemote = True, source = Remote\<rparr> \<and>
   b_lastSnapshot (snd (performRestore
          (demoBinding (demoFirestore (Some (demoSnapshot ''remote'' 1 3)) [])
             (demoCache (Some (demoSnapshot ''cached'' 1 9)) []))))
     = Some (demoSnapshot ''cached'' 1 9) \<and>
   map pc_value (model_cells (b_model (snd (performRestore
          (demoBinding (demoFirestore (Some (demoSnapshot ''remote'' 1 3)) [])
             (demoCache (Some (demoSnapshot ''cached'' 1 9)) []))))))
     = [''cached'']"
proof -
  let ?c = "demoSnapshot ''cached'' 1 9" and ?r = "demoSnapshot ''remote'' 1 3"
  let ?b = "demoBinding (demoFirestore (Some ?r) []) (demoCache (Some ?c) [])"
  have cached: "readNotebook (ctx_userId (b_context ?b)) (ctx_notebookId (b_context ?b))
                  (snd (consumePendingSnapshots (ctx_userId (b_context ?b)) (b_cache ?b)))
                = Some ?c"
    by (simp add: demo_simps readNotebook_def consumePendingSnapshots_def deepClone_def Let_def)
  have remote: "fst (getNotebook (ctx_userId (b_context ?b)) (ctx_notebookId (b_context ?b))
                       (b_firestore ?b)) = Inr (Some ?r)"
    by (simp add: demo_simps getNotebook_def arrive_def mem_getNotebook_def deepClone_def)
  have newer: "updatedAt ?r < updatedAt ?c"
    by (simp add: demoSnapshot_simps)
  show ?thesis
    using performRestore_newer_cache[OF cached remote newer]
    by (simp add: reset_def demoSnapshot_def demoCell_def toCellDto_def TestNotebookCell_def
        enumerate_eq_zip)
qed

subsection \<open>Offline writes\<close>

text \<open>
  C6, as amended. When the first remote save of a scheduled write fails with the offline
  condition, the captured snapshot is appended to the pending queue of the binding's
  (user, document) pair with \<open>pending = true\<close> and the offline error is not raised: the write
  goes on to the session write and completes normally, unless the remote session write
  fails with an error other than offline, which is raised to the caller.
\<close>

theorem offline_save_is_queued:
  assumes "fst (firstSave b) = Inl OfflineError"
  shows "queue (snd (flush None b)) = queue b @ [(captured b)\<lparr>pending := Some True\<rparr>] \<and>
         fst (flush None b) = sessionOutcome 1 b"
proof -
  obtain fs where sv: "firstSave b = (Inl OfflineError, fs)"
    using assms by (cases "firstSave b") auto
  obtain bq where run: "persistInternal b = persistSession bq"
    and cache: "b_cache bq =
          storePendingSnapshot (ctx_userId (b_context b)) (ctx_notebookId (b_context b))
            ((captured b)\<lparr>pending := Some True\<rparr>) (writeNotebook (captured b) (b_cache b))"
    and ctx: "b_context bq = b_context b"
    using persistInternal_offline[OF sv] by blast
  obtain r b' where ps: "persistSession bq = (r, b')" by (cases "persistSession bq")
  have "queue b' = queue bq"
    unfolding queue_def using persistSession_props(2,7)[OF ps]
    by (simp add: pendingFor_def)
  also have "\<dots> = queue b @ [(captured b)\<lparr>pending := Some True\<rparr>]"
    by (simp add: queue_def cache ctx pendingFor_store pendingFor_writeNotebook)
  finally have "queue (snd (flush None b)) = queue b @ [(captured b)\<lparr>pending := Some True\<rparr>]"
    using run ps by (simp add: flush_None)
  moreover have "fst (flush None b) = sessionOutcome 1 b"
    using persistInternal_offline_outcome[OF assms] by (simp add: flush_None)
  ultimately show ?thesis by simp
qed

theorem offline_save_is_queued_witness:
  "fst (firstSave (demoBinding (demoFirestore None [Unreachable]) (demoCache None [])))
     = Inl OfflineError \<and>
   queue (snd (flush None (demoBinding (demoFirestore None [Unreachable]) (demoCache None []))))
     = [(demoSnapshot ''initial'' 1 2)\<lparr>pending := Some True\<rparr>] \<and>
   fst (flush None (demoBinding (demoFirestore None [Unreachable]) (demoCache None []))) = Inr ()"
proof -
  let ?b = "demoBinding (demoFirestore None [Unreachable]) (demoCache None [])"
  have off: "fst (firstSave ?b) = Inl OfflineError"
    by (simp add: firstSave_offline_iff demo_simps)
  show ?thesis
    using off offline_save_is_queued[OF off]
    by (simp add: demo_simps demo_captured demo_queue sessionOutcome_def)
qed

text \<open>The claim as stated fails: the first save finds the store unreachable, the session
  write then fails with another error, and \<open>flush()\<close> raises it.\<close>

theorem offline_save_can_raise:
  "fst (firstSave (demoBinding (demoFirestore None [Unreachable, Failing]) (demoCache None [])))
     = Inl OfflineError \<and>
   fst (flush None (demoBinding (demoFirestore None [Unreachable, Failing]) (demoCache None [])))
     = Inl OtherError"
proof -
  let ?b = "demoBinding (demoFirestore None [Unreachable, Failing]) (demoCache None [])"
  have off: "fst (firstSave ?b) = Inl OfflineError"
    by (simp add: firstSave_offline_iff demo_simps)
  show ?thesis
    using off persistInternal_offline_outcome[OF off]
    by (simp add: flush_None sessionOutcome_def demo_simps)
qed

subsection \<open>Repeated flushes\<close>

text \<open>
  C7, as amended. Calling \<open>flush()\<close> twice in a row with no intervening edits, the first
  completing without error, issues the saves of the first call followed by those of the
  second, at least one each: at least two network saves, not one.
\<close>

theorem two_flushes_issue_two_saves:
  assumes "fst (flush inFlight b) = Inr ()"
  shows "issued (flushTwice inFlight) b
           = issued (flush inFlight) b
             @ issued (flush (Some (Inr ()))) (snd (flush inFlight b)) \<and>
         issued (flush inFlight) b \<noteq> [] \<and>
         issued (flush (Some (Inr ()))) (snd (flush inFlight b)) \<noteq> [] \<and>
         2 \<le> length (issued (flushTwice inFlight) b)"
proof -
  have tw: "issued (flushTwice inFlight) b
              = issued (flush inFlight) b
                @ issued (flush (Some (Inr ()))) (snd (flush inFlight b))"
    using assms by (rule issued_flushTwice)
  have n1: "issued (flush inFlight) b \<noteq> []"
    using issued_flush_ran[OF assms] issued_persistInternal by simp
  have n2: "issued (flush (Some (Inr ()))) (snd (flush inFlight b)) \<noteq> []"
    using issued_persistInternal by (simp add: issued_flush_chained)
  have "1 \<le> length (issued (flush inFlight) b)"
       "1 \<le> length (issued (flush (Some (Inr ()))) (snd (flush inFlight b)))"
    using n1 n2 by (simp_all add: Suc_le_eq)
  then have "2 \<le> length (issued (flushTwice inFlight) b)" using tw by simp
  then show ?thesis using tw n1 n2 by simp
qed

theorem two_flushes_issue_two_saves_witness:
  "fst (flush None (demoBinding (demoFirestore None []) (demoCache None []))) = Inr () \<and>
   2 \<le> length (issued (flushTwice None)
                   (demoBinding (demoFirestore None []) (demoCache None [])))"
proof -
  have ok: "fst (flush None (demoBinding (demoFirestore None []) (demoCache None []))) = Inr ()"
    by (rule demo_flush_twice(1))
  from two_flushes_issue_two_saves[OF ok] ok
  show ?thesis by blast
qed

text \<open>The claim as stated fails: two calls in a row issue two saves, and the store accepts
  both, the second as version 2.\<close>

theorem flush_twice_saves_twice:
  "fst (flushTwice None (demoBinding (demoFirestore None []) (demoCache None []))) = Inr () \<and>
   map (\<lambda>c. (version (sc_snapshot c), sc_expected c, sc_outcome c))
     (issued (flushTwice None) (demoBinding (demoFirestore None []) (demoCache None [])))
   = [(1, Some 0, None), (2, Some 1, None)]"
  using demo_flush_twice(2,3) by simp

subsection \<open>One save at a time\<close>

text \<open>
  C8. Three calls of \<open>ensurePersist\<close>: the second arrives while the first save is in flight
  and is chained; the first save completes, its \<open>finally\<close> callback clears \<open>pendingPersist\<close>
  and the chained second save starts; the third call then finds the field unset and starts
  a save at once, so that saves 1 and 2 are in flight together. And when a running save
  throws, the write chained behind it is never run.
\<close>

theorem chained_save_can_overlap:
  "running (chain_run [EnsurePersist, EnsurePersist] idle) = [0] \<and>
   chained (chain_run [EnsurePersist, EnsurePersist] idle) = [(0, 1)] \<and>
   running (chain_run [EnsurePersist, EnsurePersist, Settle 0 True] idle) = [1] \<and>
   pendingPersist (chain_run [EnsurePersist, EnsurePersist, Settle 0 True] idle) = None \<and>
   running (chain_run [EnsurePersist, EnsurePersist, Settle 0 True, EnsurePersist] idle) = [1, 2] \<and>
   skipped (chain_run [EnsurePersist, EnsurePersist, Settle 0 False] idle) = [1] \<and>
   running (chain_run [EnsurePersist, EnsurePersist, Settle 0 False] idle) = []"
  by (simp add: chain_run_def idle_def ensurePersist_def settle_def Let_def)

subsection \<open>The merge algorithm\<close>

text \<open>
  C9. For two cell snapshots \<open>a\<close> and \<open>b\<close> with the same stable id and different
  \<open>lastModified\<close>, the merge keeps the one with the larger \<open>lastModified\<close> whichever side each
  is passed on: when the snapshots hold just these cells, and in general, when \<open>a\<close> is a cell
  of one snapshot and \<open>b\<close> of the other and ids are not repeated within a snapshot, the only
  cell with that id in the merged snapshot is the later one.
\<close>

theorem merge_keeps_later_cell:
  assumes "cell_id a = cell_id b" and "lastModified a \<noteq> lastModified b"
  defines "later \<equiv> (if lastModified a > lastModified b then a else b)"
  shows "(cells s = [a] \<and> cells t = [b] \<longrightarrow>
            cells (fst (mergeSnapshots s t bnd)) = [later] \<and>
            cells (fst (mergeSnapshots t s bnd)) = [later]) \<and>
         (distinct (map cell_id (cells s)) \<and> distinct (map cell_id (cells t)) \<and>
          a \<in> set (cells s) \<and> b \<in> set (cells t) \<longrightarrow>
            filter (\<lambda>c. cell_id c = cell_id a) (cells (fst (mergeSnapshots s t bnd))) = [later] \<and>
            filter (\<lambda>c. cell_id c = cell_id a) (cells (fst (mergeSnapshots t s bnd))) = [later])"
proof -
  have l1: "(if lastModified a \<ge> lastModified b then a else b) = later"
    using assms(2) by (simp add: later_def)
  have l2: "(if lastModified b \<ge> lastModified a then b else a) = later"
    using assms(2) by (simp add: later_def)
  have general: "filter (\<lambda>c. cell_id c = cell_id a) (mergeCells L R) = [later] \<and>
                 filter (\<lambda>c. cell_id c = cell_id a) (mergeCells R L) = [later]"
    if "distinct (map cell_id L)" "distinct (map cell_id R)" "a \<in> set L" "b \<in> set R" for L R
  proof
    show "filter (\<lambda>c. cell_id c = cell_id a) (mergeCells L R) = [later]"
      using mergeCells_same_id[OF that(1,2,3,4) assms(1)] unfolding l1 .
    show "filter (\<lambda>c. cell_id c = cell_id a) (mergeCells R L) = [later]"
      using mergeCells_same_id[OF that(2,1,4,3) assms(1)[symmetric]]
      unfolding l2 assms(1) .
  qed
  have whole: "filter (\<lambda>c. cell_id c = cell_id a) (mergeCells L R) = mergeCells L R"
    if "set L \<union> set R \<subseteq> {a, b}" for L R
  proof -
    have "\<forall>c\<in>set (mergeCells L R). cell_id c = cell_id a"
      using mergeCells_subset[of L R] that assms(1) by auto
    then show ?thesis by (simp only: filter_id_conv)
  qed
  have two: "mergeCells [a] [b] = [later] \<and> mergeCells [b] [a] = [later]"
    using general[of "[a]" "[b]"] whole[of "[a]" "[b]"] whole[of "[b]" "[a]"] by simp
  show ?thesis
  proof (intro conjI impI)
    assume "cells s = [a] \<and> cells t = [b]"
    then show "cells (fst (mergeSnapshots s t bnd)) = [later]"
      and "cells (fst (mergeSnapshots t s bnd)) = [later]"
      using two by (simp_all only: mergeSnapshots_cells)
  next
    assume h: "distinct (map cell_id (cells s)) \<and> distinct (map cell_id (cells t)) \<and>
          a \<in> set (cells s) \<and> b \<in> set (cells t)"
    then have g: "filter (\<lambda>c. cell_id c = cell_id a) (mergeCells (cells s) (cells t)) = [later] \<and>
                 filter (\<lambda>c. cell_id c = cell_id a) (mergeCells (cells t) (cells s)) = [later]"
      by (intro general) simp_all
    show "filter (\<lambda>c. cell_id c = cell_id a) (cells (fst (mergeSnapshots s t bnd))) = [later]"
      unfolding mergeSnapshots_cells using g by (rule conjunct1)
    show "filter (\<lambda>c. cell_id c = cell_id a) (cells (fst (mergeSnapshots t s bnd))) = [later]"
      unfolding mergeSnapshots_cells using g by (rule conjunct2)
  qed
qed

theorem merge_keeps_later_cell_witness:
  "cells (fst (mergeSnapshots (demoSnapshot ''local'' 1 7) (demoSnapshot ''remote'' 2 4)
      (demoBinding (demoFirestore None []) (demoCache None [])))) = [demoCell ''local'' 7] \<and>
   cells (fst (mergeSnapshots (demoSnapshot ''remote'' 2 4) (demoSnapshot ''local'' 1 7)
      (demoBinding (demoFirestore None []) (demoCache None [])))) = [demoCell ''local'' 7]"
proof -
  have 1: "cell_id (demoCell ''local'' 7) = cell_id (demoCell ''remote'' 4)"
    and 2: "lastModified (demoCell ''local'' 7) \<noteq> lastModified (demoCell ''remote'' 4)"
    by (simp_all add: demoCell_def)
  have 3: "cells (demoSnapshot ''local'' 1 7) = [demoCell ''local'' 7]"
    and 4: "cells (demoSnapshot ''remote'' 2 4) = [demoCell ''remote'' 4]"
    by (simp_all add: demoSnapshot_def)
  have 5: "lastModified (demoCell ''local'' 7) > lastModified (demoCell ''remote'' 4)"
    by (simp add: demoCell_def)
  show ?thesis
    using merge_keeps_later_cell[OF 1 2, of "demoSnapshot ''local'' 1 7"
        "demoSnapshot ''remote'' 2 4" "demoBinding (demoFirestore None []) (demoCache None [])"]
      3 4 5
    by simp
qed

subsection \<open>The in-memory remote store\<close>

text \<open>
  C10. In the in-memory remote store, \<open>saveNotebook\<close> raises \<open>ConflictError\<close>, and nothing
  else, exactly when a document is stored under the snapshot's (user, notebook) key, an
  expected version was supplied, and the stored version differs from it. When no document
  is stored under that key the save succeeds for every expected version, none included:
  it returns the submitted snapshot and stores it, version included, under the key.
\<close>

theorem saveNotebook_conflict_only_on_mismatch:
  "((mem_saveNotebook snapshot expectedVersion nb = Inl e) =
      (e = ConflictError \<and>
       (\<exists>cur ev. nb (key (userId snapshot) (notebookId snapshot)) = Some cur \<and>
                 expectedVersion = Some ev \<and> version cur \<noteq> ev))) \<and>
   (nb (key (userId snapshot) (notebookId snapshot)) = None \<longrightarrow>
      mem_saveNotebook snapshot expectedVersion nb =
        Inr (snapshot, nb(key (userId snapshot) (notebookId snapshot) \<mapsto> snapshot)))"
  by (auto simp: mem_saveNotebook_def deepClone_def Let_def split: option.splits)

theorem saveNotebook_conflict_only_on_mismatch_witness:
  "mem_saveNotebook (demoSnapshot ''new'' 7 1) (Some 3) Map.empty =
     Inr (demoSnapshot ''new'' 7 1, [''u::n'' \<mapsto> demoSnapshot ''new'' 7 1]) \<and>
   mem_saveNotebook (demoSnapshot ''new'' 7 1) (Some 3) [''u::n'' \<mapsto> demoSnapshot ''old'' 5 0] =
     Inl ConflictError"
  using saveNotebook_conflict_only_on_mismatch
          [of "demoSnapshot ''new'' 7 1" "Some 3" Map.empty ConflictError]
        saveNotebook_conflict_only_on_mismatch
          [of "demoSnapshot ''new'' 7 1" "Some 3" "[''u::n'' \<mapsto> demoSnapshot ''old'' 5 0]"
              ConflictError]
  by (simp add: key_def demoSnapshot_def)

end
